theory Spec2Isabelle
  imports Complex_Main "HOL-Library.Sublist" "HOL-Library.AList"
begin

section \<open>Python values shared by the components\<close>

text \<open>
  Python floats (amounts, confidences, \<open>time.time()\<close>) are modelled by the real number
  they denote; strings are \<open>char list\<close>s. \<open>startswith\<close>, \<open>endswith\<close> and the
  substring test \<open>p in s\<close> are \<open>prefix\<close>, \<open>suffix\<close> and \<open>sublist\<close>.
\<close>

definition startswith :: "string \<Rightarrow> string \<Rightarrow> bool" where
  "startswith s p = prefix p s"

definition endswith :: "string \<Rightarrow> string \<Rightarrow> bool" where
  "endswith s p = suffix p s"

definition contains :: "string \<Rightarrow> string \<Rightarrow> bool" where
  \<comment> \<open>\<open>contains s p\<close> is Python's \<open>p in s\<close>\<close>
  "contains s p = sublist p s"

definition path_join :: "string \<Rightarrow> string \<Rightarrow> string" where
  \<comment> \<open>\<open>os.path.join(a, b)\<close> of posixpath\<close>
  "path_join a b =
     (if startswith b ''/'' then b
      else if a = [] \<or> endswith a ''/'' then a @ b
      else a @ ''/'' @ b)"

subsection \<open>Fixed-point formatting: \<open>format(x, '.2f')\<close> and \<open>format(x, ',.2f')\<close>\<close>

definition round_half_even :: "real \<Rightarrow> int" where
  "round_half_even x =
     (let f = \<lfloor>x\<rfloor>; d = x - of_int f
      in if d < 1/2 then f else if 1/2 < d then f + 1 else if even f then f else f + 1)"

definition digit_char :: "int \<Rightarrow> char" where
  "digit_char d =
     (let r = d mod 10 in
      if r = 0 then CHR ''0'' else if r = 1 then CHR ''1'' else if r = 2 then CHR ''2''
      else if r = 3 then CHR ''3'' else if r = 4 then CHR ''4'' else if r = 5 then CHR ''5''
      else if r = 6 then CHR ''6'' else if r = 7 then CHR ''7'' else if r = 8 then CHR ''8''
      else CHR ''9'')"

function str_int :: "int \<Rightarrow> string" where
  "str_int n = (if n < 10 then [digit_char n] else str_int (n div 10) @ [digit_char n])"
  by pat_completeness auto
termination
  by (relation "measure nat") auto

declare str_int.simps [simp del]

fun group3 :: "string \<Rightarrow> string" where
  \<comment> \<open>thousands separators, on the reversed digit string\<close>
  "group3 (a # b # c # d # rest) = a # b # c # CHR '','' # group3 (d # rest)"
| "group3 xs = xs"

definition fmt_2f :: "bool \<Rightarrow> real \<Rightarrow> string" where
  \<comment> \<open>\<open>fmt_2f False x\<close> is \<open>f"{x:.2f}"\<close>, \<open>fmt_2f True x\<close> is \<open>f"{x:,.2f}"\<close>\<close>
  "fmt_2f grouped x =
     (let c = round_half_even (\<bar>x\<bar> * 100);
          whole = str_int (c div 100);
          whole' = (if grouped then rev (group3 (rev whole)) else whole)
      in (if x < 0 then ''-'' else '''') @ whole' @ ''.'' @
         [digit_char (c div 10), digit_char c])"

section \<open>Confidence routing (\<open>collections/pdf_parser.py\<close>)\<close>

record parsed_invoice =
  invoice_number :: "string option"
  client_name :: "string option"
  amount :: "real option"
  due_date :: "string option"
  items :: "(string \<times> real \<times> real \<times> real) list"
  confidence :: real
  confidence_breakdown :: "(string \<times> real) list"

text \<open>
  The JSON documents that routing writes: \<open>ReviewDoc invoice timestamp\<close> is the document
  of status \<open>pending_review\<close> written under \<open>review_queue\<close>, and
  \<open>ManualDoc invoice timestamp reason\<close> the document of status \<open>manual_entry_required\<close>
  written under \<open>manual\<close>; \<open>invoice\<close> stands for \<open>invoice.to_dict()\<close>.
\<close>

datatype queue_doc =
    ReviewDoc parsed_invoice string
  | ManualDoc parsed_invoice string string

text \<open>
  The part of the file system that routing touches: the directories that exist and the
  files written. \<open>os.makedirs(p, exist_ok=True)\<close> adds the directory; input/output
  failures of the operating system are outside the model.
\<close>

record route_fs =
  dirs :: "string set"
  files :: "string \<rightharpoonup> queue_doc"

record routing =
  status :: string
  action :: string
  path :: string

definition path_exists :: "route_fs \<Rightarrow> string \<Rightarrow> bool" where
  "path_exists fs p \<longleftrightarrow> p \<in> dirs fs \<or> p \<in> dom (files fs)"

definition makedirs :: "string \<Rightarrow> route_fs \<Rightarrow> route_fs" where
  "makedirs p fs = fs\<lparr>dirs := insert p (dirs fs)\<rparr>"

definition write_doc :: "string \<Rightarrow> queue_doc \<Rightarrow> route_fs \<Rightarrow> route_fs" where
  "write_doc p d fs = fs\<lparr>files := (files fs)(p \<mapsto> d)\<rparr>"

definition invoice_id :: "parsed_invoice \<Rightarrow> string" where
  \<comment> \<open>\<open>invoice.invoice_number or "unknown"\<close>\<close>
  "invoice_id pinv =
     (case invoice_number pinv of
        None \<Rightarrow> ''unknown''
      | Some n \<Rightarrow> if n = [] then ''unknown'' else n)"

definition route_by_confidence ::
  "parsed_invoice \<Rightarrow> string \<Rightarrow> string \<Rightarrow> route_fs \<Rightarrow> routing \<times> route_fs" where
  \<comment> \<open>the third argument is \<open>datetime.utcnow().isoformat()\<close>\<close>
  "route_by_confidence pinv state_dir utcnow fs0 =
     (let fs = (if \<not> path_exists fs0 state_dir then makedirs state_dir fs0 else fs0);
          ident = invoice_id pinv
      in if confidence pinv \<ge> 0.95 then
           (let auto_dir = path_join state_dir ''auto''
            in (\<lparr>status = ''auto'', action = ''create_state'', path = auto_dir\<rparr>,
                makedirs auto_dir fs))
         else if confidence pinv \<ge> 0.85 then
           (let review_dir = path_join state_dir ''review_queue'';
                review_path = path_join review_dir (ident @ ''.json'')
            in (\<lparr>status = ''review'', action = ''queued_for_review'', path = review_path\<rparr>,
                write_doc review_path (ReviewDoc pinv utcnow) (makedirs review_dir fs)))
         else
           (let manual_dir = path_join state_dir ''manual'';
                manual_path = path_join manual_dir (ident @ ''.json'')
            in (\<lparr>status = ''manual'', action = ''requires_human'', path = manual_path\<rparr>,
                write_doc manual_path
                  (ManualDoc pinv utcnow
                     (''Low confidence ('' @ fmt_2f False (confidence pinv) @ '')''))
                  (makedirs manual_dir fs))))"

definition sample_invoice :: "real \<Rightarrow> parsed_invoice" where
  "sample_invoice c =
     \<lparr>invoice_number = Some ''INV-001'', client_name = Some ''ACME'', amount = Some 1500,
      due_date = Some ''2026-02-14T00:00:00'', items = [], confidence = c,
      confidence_breakdown = []\<rparr>"

definition empty_route_fs :: route_fs where
  "empty_route_fs = \<lparr>dirs = {}, files = Map.empty\<rparr>"

section \<open>Payment matching (\<open>filesystem/payment_checker.py\<close>)\<close>

text \<open>
  An unpaid invoice as \<open>_find_matching_invoice\<close> reads it: \<open>invoice.get("invoice_number")\<close>,
  \<open>invoice.get("client")\<close> and \<open>invoice["amount"]\<close>. The amount entry may be absent
  (\<open>KeyError\<close>), something \<open>float()\<close> rejects (\<open>ValueError\<close>, \<open>TypeError\<close>), or a number.
\<close>

datatype amount_field = AmountMissing | AmountInvalid | Amount real

record unpaid_invoice =
  u_invoice_number :: "string option"
  u_client :: "string option"
  u_amount :: amount_field

definition truthy_str :: "string option \<Rightarrow> bool" where
  "truthy_str x = (case x of None \<Rightarrow> False | Some v \<Rightarrow> v \<noteq> [])"

definition truthy_num :: "real option \<Rightarrow> bool" where
  "truthy_num x = (case x of None \<Rightarrow> False | Some v \<Rightarrow> v \<noteq> 0)"

fun find_matching_invoice ::
  "real option \<Rightarrow> string option \<Rightarrow> string option \<Rightarrow> unpaid_invoice list \<Rightarrow> unpaid_invoice option"
where
  "find_matching_invoice pay_amount pay_client pay_number [] = None"
| "find_matching_invoice pay_amount pay_client pay_number (invoice # rest) =
     (if truthy_str pay_number \<and> u_invoice_number invoice = pay_number then Some invoice
      else if truthy_num pay_amount \<and> truthy_str pay_client \<and> u_client invoice = pay_client then
        (case u_amount invoice of
           AmountMissing \<Rightarrow> None
         | AmountInvalid \<Rightarrow> find_matching_invoice pay_amount pay_client pay_number rest
         | Amount invoice_amount \<Rightarrow>
             if invoice_amount > 0 \<and>
                \<bar>invoice_amount - the pay_amount\<bar> / invoice_amount \<le> 0.05
             then Some invoice
             else find_matching_invoice pay_amount pay_client pay_number rest)
      else find_matching_invoice pay_amount pay_client pay_number rest)"

definition verify_amount :: "real option \<Rightarrow> amount_field \<Rightarrow> real" where
  "verify_amount payment_amount invoice_amount =
     (case (payment_amount, invoice_amount) of
        (Some p, Amount i) \<Rightarrow>
          if \<bar>p - i\<bar> < 0.01 then 1.0
          else if p < i then 0.95
          else if p > i then 0.90
          else 0.0
      | _ \<Rightarrow> 0.0)"

text \<open>
  The result of \<open>PaymentConfidenceChecker.__call__\<close> on already extracted payment data:
  \<open>None\<close> is \<open>{"matches_invoice": False}\<close>, \<open>Some (invoice, confidence)\<close> a match.
  \<open>matching_invoice["amount"]\<close> of a record found by its number raises \<open>KeyError\<close> when
  the entry is absent.
\<close>

datatype check_error = KeyError_amount

definition check_payment ::
  "real option \<Rightarrow> string option \<Rightarrow> string option \<Rightarrow> unpaid_invoice list
     \<Rightarrow> check_error + (unpaid_invoice \<times> real) option" where
  "check_payment pay_amount pay_client pay_number unpaid =
     (case find_matching_invoice pay_amount pay_client pay_number unpaid of
        None \<Rightarrow> Inr None
      | Some invoice \<Rightarrow>
          (case u_amount invoice of
             AmountMissing \<Rightarrow> Inl KeyError_amount
           | a \<Rightarrow> Inr (Some (invoice, verify_amount pay_amount a))))"

definition invoice_by_amount :: unpaid_invoice where
  "invoice_by_amount =
     \<lparr>u_invoice_number = Some ''INV-001'', u_client = Some ''acme'', u_amount = Amount 100\<rparr>"

definition invoice_by_number :: unpaid_invoice where
  "invoice_by_number =
     \<lparr>u_invoice_number = Some ''INV-002'', u_client = Some ''other'', u_amount = Amount 500\<rparr>"

section \<open>Token validation (\<open>auth/token_cache.py\<close>, \<open>auth/token_validator.py\<close>)\<close>

record cached_token =
  access_token :: string
  token_type :: string
  expires_at :: int
  refresh_token :: "string option"
  scope :: "string option"
  id_token :: "string option"
  account_id :: "string option"
  cached_at :: int

definition py_int :: "real \<Rightarrow> int" where
  \<comment> \<open>\<open>int(x)\<close> truncates towards zero\<close>
  "py_int x = (if 0 \<le> x then \<lfloor>x\<rfloor> else \<lceil>x\<rceil>)"

definition is_expired :: "real \<Rightarrow> cached_token \<Rightarrow> bool" where
  \<comment> \<open>the first argument is \<open>time.time()\<close>\<close>
  "is_expired now tok = (let buffer_time = 300 in py_int now \<ge> expires_at tok - buffer_time)"

definition is_valid :: "real \<Rightarrow> cached_token \<Rightarrow> bool" where
  "is_valid now tok = (\<not> is_expired now tok)"

text \<open>
  The validator with its cache, keyed by account (the provider is fixed per validator).
  As in \<open>TokenCache\<close>, \<open>get_token\<close> hands out a fresh copy of the stored token, so that
  assigning \<open>expires_at\<close> on it changes the cache only through \<open>save_token\<close>; \<open>save_token\<close>
  reports a failure by returning \<open>False\<close>, which \<open>_silent_refresh\<close> does not look at. What the
  refresh attempts meet is an input: \<open>attempt_raises k\<close> says that the body of attempt \<open>k\<close>
  raises, \<open>save_succeeds k\<close> that its \<open>save_token\<close> stores the token, \<open>attempt_time k\<close> is
  \<open>time.time()\<close> there. The audit and alert files and the sleeps between attempts are not
  part of the model.
\<close>

record validator =
  cache :: "string \<rightharpoonup> cached_token"
  refresh_attempts :: nat
  max_refresh_attempts :: nat
  degraded_mode :: bool

record refresh_env =
  attempt_raises :: "nat \<Rightarrow> bool"
  save_succeeds :: "nat \<Rightarrow> bool"
  attempt_time :: "nat \<Rightarrow> real"

record token_info =
  ti_access_token :: string
  ti_token_type :: string
  ti_expires_in :: int
  ti_refresh_token :: "string option"
  ti_account_id :: string

datatype auth_error =
    DegradedModeActive
  | NoTokensFound
  | MaxRefreshAttemptsExceeded
  | RefreshFailedAllAttempts

definition enter_degraded_mode :: "validator \<Rightarrow> validator" where
  "enter_degraded_mode v = v\<lparr>degraded_mode := True\<rparr>"

fun refresh_loop ::
  "refresh_env \<Rightarrow> string \<Rightarrow> cached_token \<Rightarrow> nat \<Rightarrow> nat \<Rightarrow> validator
     \<Rightarrow> (auth_error + token_info) \<times> validator" where
  \<comment> \<open>\<open>refresh_loop env account tok todo attempt v\<close>: the attempts \<open>attempt, attempt + 1, ..\<close>,
      \<open>todo\<close> of them left\<close>
  "refresh_loop env account tok 0 attempt v =
     (Inl RefreshFailedAllAttempts, enter_degraded_mode v)"
| "refresh_loop env account tok (Suc todo) attempt v =
     (if attempt_raises env attempt then
        refresh_loop env account tok todo (Suc attempt)
          (v\<lparr>refresh_attempts := refresh_attempts v + 1\<rparr>)
      else
        (let refreshed = tok\<lparr>expires_at := py_int (attempt_time env attempt) + 3600\<rparr>
         in (Inr \<lparr>ti_access_token = access_token refreshed,
                  ti_token_type = token_type refreshed,
                  ti_expires_in = 3600,
                  ti_refresh_token = refresh_token refreshed,
                  ti_account_id = account\<rparr>,
             v\<lparr>cache := (if save_succeeds env attempt
                         then (cache v)(account \<mapsto> refreshed) else cache v),
               refresh_attempts := 0\<rparr>)))"

definition silent_refresh ::
  "refresh_env \<Rightarrow> string \<Rightarrow> cached_token \<Rightarrow> validator \<Rightarrow> (auth_error + token_info) \<times> validator"
where
  "silent_refresh env account tok v =
     (if refresh_attempts v \<ge> max_refresh_attempts v then
        (Inl MaxRefreshAttemptsExceeded, enter_degraded_mode v)
      else refresh_loop env account tok (max_refresh_attempts v) 0 v)"

definition validate_before_request ::
  "refresh_env \<Rightarrow> real \<Rightarrow> string \<Rightarrow> real \<Rightarrow> validator \<Rightarrow> (auth_error + token_info) \<times> validator"
where
  \<comment> \<open>\<open>validate_before_request env now account buffer_seconds v\<close>, \<open>now\<close> being \<open>time.time()\<close>\<close>
  "validate_before_request env now account buffer_seconds v =
     (if degraded_mode v then (Inl DegradedModeActive, v)
      else case cache v account of
        None \<Rightarrow> (Inl NoTokensFound, v)
      | Some tok \<Rightarrow>
          (let remaining = of_int (expires_at tok) - now
           in if remaining < buffer_seconds then silent_refresh env account tok v
              else (Inr \<lparr>ti_access_token = access_token tok,
                         ti_token_type = token_type tok,
                         ti_expires_in = py_int remaining,
                         ti_refresh_token = refresh_token tok,
                         ti_account_id = account\<rparr>, v)))"

definition sample_token :: "int \<Rightarrow> cached_token" where
  "sample_token e =
     \<lparr>access_token = ''tok-0001'', token_type = ''Bearer'', expires_at = e,
      refresh_token = Some ''refresh-0001'', scope = None, id_token = None,
      account_id = Some ''acct'', cached_at = 0\<rparr>"

definition sample_validator :: "int \<Rightarrow> validator" where
  "sample_validator e =
     \<lparr>cache = [''acct'' \<mapsto> sample_token e], refresh_attempts = 0,
      max_refresh_attempts = 3, degraded_mode = False\<rparr>"

definition calm_env :: "real \<Rightarrow> refresh_env" where
  "calm_env now =
     \<lparr>attempt_raises = (\<lambda>k. False), save_succeeds = (\<lambda>k. True), attempt_time = (\<lambda>k. now)\<rparr>"

section \<open>Rate limiter (\<open>auth/rate_limiter.py\<close>)\<close>

text \<open>
  \<open>TokenBucketRateLimiter\<close> as a state record; every operation takes the reading of
  \<open>time.time()\<close> as its argument \<open>now\<close> (one reading per call of \<open>acquire\<close>).
  \<open>try_acquire\<close> is \<open>acquire(block=False)\<close>; the sleeping retry of \<open>block=True\<close> is not
  part of the model. \<open>run_acquires cfg ts s\<close> calls \<open>try_acquire\<close> once at each time of
  \<open>ts\<close>, in order.
\<close>

record rate_limit_config =
  max_per_cycle :: int
  cycle_seconds :: real
  max_per_day :: int
  day_seconds :: real

definition default_config :: rate_limit_config where
  "default_config = \<lparr>max_per_cycle = 20, cycle_seconds = 60, max_per_day = 100, day_seconds = 86400\<rparr>"

record limiter =
  daily_tokens :: int
  daily_last_refill :: real
  cycle_queue :: "real list"
  cycle_window_start :: real

definition new_limiter :: "rate_limit_config \<Rightarrow> real \<Rightarrow> limiter" where
  "new_limiter cfg now =
     \<lparr>daily_tokens = max_per_day cfg, daily_last_refill = now,
      cycle_queue = [], cycle_window_start = now\<rparr>"

definition refill_daily_tokens :: "rate_limit_config \<Rightarrow> real \<Rightarrow> limiter \<Rightarrow> limiter" where
  "refill_daily_tokens cfg now s =
     (if now - daily_last_refill s \<ge> day_seconds cfg
      then s\<lparr>daily_tokens := max_per_day cfg, daily_last_refill := now\<rparr>
      else s)"

definition cleanup_cycle_queue :: "rate_limit_config \<Rightarrow> real \<Rightarrow> limiter \<Rightarrow> limiter" where
  "cleanup_cycle_queue cfg now s =
     (let cutoff_time = now - cycle_seconds cfg;
          q = dropWhile (\<lambda>t. t < cutoff_time) (cycle_queue s)
      in if q = [] then s\<lparr>cycle_queue := q, cycle_window_start := now\<rparr>
         else s\<lparr>cycle_queue := q\<rparr>)"

definition can_consume_cycle_token :: "rate_limit_config \<Rightarrow> real \<Rightarrow> limiter \<Rightarrow> bool \<times> limiter" where
  "can_consume_cycle_token cfg now s =
     (let s' = cleanup_cycle_queue cfg now s
      in (int (length (cycle_queue s')) < max_per_cycle cfg, s'))"

definition consume_cycle_token :: "real \<Rightarrow> limiter \<Rightarrow> limiter" where
  "consume_cycle_token now s =
     (let s' = (if cycle_queue s = [] then s\<lparr>cycle_window_start := now\<rparr> else s)
      in s'\<lparr>cycle_queue := cycle_queue s' @ [now]\<rparr>)"

definition try_acquire :: "rate_limit_config \<Rightarrow> real \<Rightarrow> limiter \<Rightarrow> bool \<times> limiter" where
  "try_acquire cfg now s0 =
     (let s1 = refill_daily_tokens cfg now s0
      in if daily_tokens s1 > 0 then
           (case can_consume_cycle_token cfg now s1 of
              (True, s2) \<Rightarrow> (True, consume_cycle_token now (s2\<lparr>daily_tokens := daily_tokens s2 - 1\<rparr>))
            | (False, s2) \<Rightarrow> (False, s2))
         else (False, s1))"

fun run_acquires :: "rate_limit_config \<Rightarrow> real list \<Rightarrow> limiter \<Rightarrow> bool list \<times> limiter" where
  "run_acquires cfg [] s = ([], s)"
| "run_acquires cfg (t # ts) s =
     (let r = try_acquire cfg t s; rs = run_acquires cfg ts (snd r)
      in (fst r # fst rs, snd rs))"

definition budget :: "rate_limit_config \<Rightarrow> limiter \<Rightarrow> int" where
  \<comment> \<open>the daily tokens left whether or not the next call refills the bucket\<close>
  "budget cfg s = min (daily_tokens s) (max_per_day cfg)"

definition first_window :: "real list" where
  "first_window = map real [0..<20]"

definition second_window :: "real list" where
  "second_window = map (\<lambda>k. 81 + real k) [0..<20]"

section \<open>Reminder scheduler (\<open>collections/scheduler.py\<close>)\<close>

text \<open>
  An invoice as the scheduler reads it from \<open>state.get_all_unpaid()\<close>: the entries
  \<open>number\<close>, \<open>client\<close>, \<open>email\<close> and \<open>due_date\<close>, and the \<open>reminder_log\<close> of the data
  model (the rule ids already sent). \<open>due_date_iso\<close> is the value of
  \<open>datetime.fromisoformat(invoice["due_date"])\<close> in microseconds, \<open>None\<close> when it raises
  \<open>ValueError\<close>; \<open>now\<close> is the time provider's reading in the same unit, so that
  \<open>(due_date - now).days\<close> is the floor division by the microseconds of a day.

  The collaborators are parameters: the list of unpaid invoices, \<open>is_paused\<close>, and the
  sender as a function from its own state and the reminder to an outcome and its next
  state. The calls of \<open>record_email_sent\<close> and \<open>record_email_failed\<close> are returned as a
  trace; invoices carry every entry the loop reads. \<open>limited_sender\<close> is a sender that
  delivers exactly when the rate limiter admits the send, as \<open>GraphEmailSender.send_email\<close> raises \<open>RateLimitExceeded\<close> when
  \<open>try_acquire\<close> refuses; its argument \<open>t\<close> is the reading of \<open>time.time()\<close> during the
  batch.
\<close>

record sched_invoice =
  number :: string
  client :: string
  email :: string
  due_date_iso :: "int option"
  reminder_log :: "string list"

datatype rule_offset = DaysBeforeDue int | DaysAfterDue int

definition REMINDER_RULES :: "(string \<times> rule_offset \<times> string) list" where
  "REMINDER_RULES =
     [(''reminder_1'', DaysBeforeDue 3, ''reminder_3d''),
      (''reminder_2'', DaysBeforeDue 0, ''reminder_due''),
      (''overdue_1'', DaysAfterDue 5, ''overdue_5d''),
      (''overdue_2'', DaysAfterDue 7, ''overdue_7d''),
      (''final_notice'', DaysAfterDue 10, ''final_notice''),
      (''escalation'', DaysAfterDue 14, ''escalation'')]"

datatype days_field = DaysUntilDue int | DaysOverdue int

record reminder =
  r_invoice :: sched_invoice
  r_rule :: string
  r_template :: string
  r_days :: days_field

datatype sched_error = ValueError_due_date

definition days_until_due :: "int \<Rightarrow> int \<Rightarrow> int" where
  "days_until_due due now = (due - now) div 86400000000"

fun rule_fires :: "rule_offset \<Rightarrow> int \<Rightarrow> bool" where
  "rule_fires (DaysBeforeDue n) d = (d = n)"
| "rule_fires (DaysAfterDue n) d = (d = - n)"

fun rule_days :: "rule_offset \<Rightarrow> int \<Rightarrow> days_field" where
  "rule_days (DaysBeforeDue n) d = DaysUntilDue d"
| "rule_days (DaysAfterDue n) d = DaysOverdue \<bar>d\<bar>"

fun invoice_reminders ::
  "sched_invoice \<Rightarrow> int \<Rightarrow> (string \<times> rule_offset \<times> string) list \<Rightarrow> reminder list" where
  "invoice_reminders invoice d [] = []"
| "invoice_reminders invoice d ((rule_name, rule, template) # rules) =
     (if rule_fires rule d
      then \<lparr>r_invoice = invoice, r_rule = rule_name, r_template = template,
            r_days = rule_days rule d\<rparr> # invoice_reminders invoice d rules
      else invoice_reminders invoice d rules)"

fun get_due_reminders :: "int \<Rightarrow> sched_invoice list \<Rightarrow> sched_error + reminder list" where
  "get_due_reminders now [] = Inr []"
| "get_due_reminders now (invoice # rest) =
     (case due_date_iso invoice of
        None \<Rightarrow> Inl ValueError_due_date
      | Some due \<Rightarrow>
          (case get_due_reminders now rest of
             Inl e \<Rightarrow> Inl e
           | Inr reminders \<Rightarrow>
               Inr (invoice_reminders invoice (days_until_due due now) REMINDER_RULES @ reminders)))"

datatype send_outcome = Delivered | RateLimitExceeded | SendFailed string

record send_counts =
  sent :: nat
  failed :: nat
  rate_limited :: nat

datatype state_call =
    RecordEmailSent string string string
  | RecordEmailFailed string string string string

definition sent_call :: "reminder \<Rightarrow> state_call" where
  "sent_call r = RecordEmailSent (client (r_invoice r)) (number (r_invoice r)) (r_rule r)"

fun send_loop ::
  "('s \<Rightarrow> reminder \<Rightarrow> send_outcome \<times> 's) \<Rightarrow> (string \<Rightarrow> bool) \<Rightarrow> reminder list
     \<Rightarrow> send_counts \<times> 's \<times> state_call list \<Rightarrow> send_counts \<times> 's \<times> state_call list" where
  "send_loop send is_paused [] acc = acc"
| "send_loop send is_paused (r # rs) (c, sender, calls) =
     (if is_paused (client (r_invoice r)) then send_loop send is_paused rs (c, sender, calls)
      else case send sender r of
        (Delivered, sender') \<Rightarrow>
          send_loop send is_paused rs
            (c\<lparr>sent := sent c + 1\<rparr>, sender', calls @ [sent_call r])
      | (RateLimitExceeded, sender') \<Rightarrow>
          (c\<lparr>rate_limited := rate_limited c + 1\<rparr>, sender', calls)
      | (SendFailed msg, sender') \<Rightarrow>
          send_loop send is_paused rs
            (c\<lparr>failed := failed c + 1\<rparr>, sender',
             calls @ [RecordEmailFailed (client (r_invoice r)) (number (r_invoice r)) (r_rule r) msg]))"

definition py_slice_to :: "int \<Rightarrow> 'a list \<Rightarrow> 'a list" where
  "py_slice_to n xs = (if 0 \<le> n then take (nat n) xs else take (length xs - nat (- n)) xs)"

definition send_reminders ::
  "('s \<Rightarrow> reminder \<Rightarrow> send_outcome \<times> 's) \<Rightarrow> (string \<Rightarrow> bool) \<Rightarrow> int \<Rightarrow> int
     \<Rightarrow> sched_invoice list \<Rightarrow> 's \<Rightarrow> sched_error + (send_counts \<times> 's \<times> state_call list)" where
  "send_reminders send is_paused now batch_size unpaid sender =
     (case get_due_reminders now unpaid of
        Inl e \<Rightarrow> Inl e
      | Inr reminders \<Rightarrow>
          Inr (send_loop send is_paused (py_slice_to batch_size reminders)
                 (\<lparr>sent = 0, failed = 0, rate_limited = 0\<rparr>, sender, [])))"

definition limited_sender ::
  "rate_limit_config \<Rightarrow> real \<Rightarrow> limiter \<Rightarrow> reminder \<Rightarrow> send_outcome \<times> limiter" where
  "limited_sender cfg t bucket r =
     (let a = try_acquire cfg t bucket
      in (if fst a then Delivered else RateLimitExceeded, snd a))"

definition due_invoice :: "int \<Rightarrow> nat \<Rightarrow> sched_invoice" where
  "due_invoice now k =
     \<lparr>number = ''INV-'' @ str_int (int k), client = ''client-'' @ str_int (int k),
      email = ''billing@example.com'', due_date_iso = Some (now + 259200000000),
      reminder_log = []\<rparr>"

definition reminder_3d :: "sched_invoice \<Rightarrow> reminder" where
  "reminder_3d invoice =
     \<lparr>r_invoice = invoice, r_rule = ''reminder_1'', r_template = ''reminder_3d'',
      r_days = DaysUntilDue 3\<rparr>"

definition logged_invoice :: sched_invoice where
  "logged_invoice = (due_invoice 0 1)\<lparr>reminder_log := [''reminder_1'']\<rparr>"

definition nobody_paused :: "string \<Rightarrow> bool" where
  "nobody_paused c = False"

definition unpaid21 :: "sched_invoice list" where
  "unpaid21 = map (due_invoice 0) [0..<21]"

definition limiter_after_batch :: limiter where
  "limiter_after_batch = snd (run_acquires default_config (replicate 20 0) (new_limiter default_config 0))"

definition always_delivers :: "unit \<Rightarrow> reminder \<Rightarrow> send_outcome \<times> unit" where
  "always_delivers u r = (Delivered, u)"

section \<open>Invoice state store (\<open>state/invoice_state.py\<close>)\<close>

text \<open>
  A JSON value as \<open>json.load\<close> returns it; an object is the list of its entries in
  order, as a Python \<open>dict\<close> keeps them: \<open>data[k] = v\<close> is \<open>AList.update\<close>,
  \<open>data.pop(k, None)\<close> removes the entry with \<open>AList.delete\<close>. \<open>truthy\<close> is Python's truth
  value of the loaded value.

  The store is the directory tree below \<open>state_dir\<close> as a map from relative path to file
  content (\<open>Unparsable\<close> is a file on which \<open>json.load\<close> raises \<open>JSONDecodeError\<close>), the
  event log as the list of its entries (the random \<open>event_id\<close> left out), and the
  in-process locks: \<open>locks st p = Some True\<close> is a held \<open>threading.Lock\<close>. Every operation
  returns its result, an error for each exception it can raise, together with the store
  it leaves behind; \<open>finally_release\<close> is the \<open>finally: self._release_lock(..)\<close> clause,
  whose own exception replaces the one in flight. \<open>hashlib\<close> and the canonical
  \<open>json.dumps\<close> are the parameter \<open>digest\<close>, the first 16 hex characters of the SHA-256
  of the serialised entries; \<open>utcnow\<close> is \<open>datetime.utcnow().isoformat()\<close>. Failures of
  the operating system are outside the model.
\<close>

datatype json =
    JNull
  | JBool bool
  | JNum real
  | JStr string
  | JArr "json list"
  | JObj "(string \<times> json) list"

fun truthy :: "json \<Rightarrow> bool" where
  "truthy JNull = False"
| "truthy (JBool b) = b"
| "truthy (JNum x) = (x \<noteq> 0)"
| "truthy (JStr s) = (s \<noteq> [])"
| "truthy (JArr xs) = (xs \<noteq> [])"
| "truthy (JObj kvs) = (kvs \<noteq> [])"

datatype file_content = Unparsable | Parsed json

record event =
  ev_timestamp :: string
  ev_client :: string
  ev_invoice :: string
  ev_event :: string
  ev_data :: json

record store =
  disk :: "string \<rightharpoonup> file_content"
  event_log :: "event list"
  enable_locking :: bool
  locks :: "string \<rightharpoonup> bool"

datatype state_error =
    StateCorruptionError
  | StateLockError
  | FileNotFoundError
  | RuntimeError_release_unlocked
  | TypeError_not_a_dict

definition state_file :: "string \<Rightarrow> string \<Rightarrow> string" where
  "state_file client_id invoice_no = client_id @ ''/'' @ invoice_no @ ''.json''"

definition archive_file :: "string \<Rightarrow> string \<Rightarrow> string" where
  "archive_file client_id invoice_no = ''archive/'' @ client_id @ ''/'' @ invoice_no @ ''.json''"

definition backup_file :: "string \<Rightarrow> string" where
  "backup_file p = p @ ''.bak''"

definition tmp_file :: "string \<Rightarrow> string" where
  "tmp_file p = p @ ''.tmp''"

definition atomic_write :: "string \<Rightarrow> json \<Rightarrow> store \<Rightarrow> store" where
  "atomic_write p j st = st\<lparr>disk := ((disk st)(tmp_file p := None))(p \<mapsto> Parsed j)\<rparr>"

definition acquire_lock :: "string \<Rightarrow> store \<Rightarrow> state_error + store" where
  "acquire_lock p st =
     (if \<not> enable_locking st then Inr st
      else if locks st p = Some True then Inl StateLockError
      else Inr (st\<lparr>locks := (locks st)(p \<mapsto> True)\<rparr>))"

definition release_lock :: "string \<Rightarrow> store \<Rightarrow> state_error + store" where
  "release_lock p st =
     (if \<not> enable_locking st then Inr st
      else case locks st p of
        None \<Rightarrow> Inr st
      | Some True \<Rightarrow> Inr (st\<lparr>locks := (locks st)(p \<mapsto> False)\<rparr>)
      | Some False \<Rightarrow> Inl RuntimeError_release_unlocked)"

definition finally_release ::
  "string \<Rightarrow> (state_error + 'a) \<times> store \<Rightarrow> (state_error + 'a) \<times> store" where
  "finally_release p r =
     (case release_lock p (snd r) of
        Inl e \<Rightarrow> (Inl e, snd r)
      | Inr st \<Rightarrow> (fst r, st))"

definition compute_checksum :: "((string \<times> json) list \<Rightarrow> string) \<Rightarrow> (string \<times> json) list \<Rightarrow> string" where
  "compute_checksum digest data = digest (filter (\<lambda>(k, v). \<not> startswith k ''_'') data)"

definition log_event :: "string \<Rightarrow> string \<Rightarrow> string \<Rightarrow> string \<Rightarrow> json \<Rightarrow> store \<Rightarrow> store" where
  "log_event utcnow client_id invoice_no event_type data st =
     st\<lparr>event_log := event_log st @
        [\<lparr>ev_timestamp = utcnow, ev_client = client_id, ev_invoice = invoice_no,
          ev_event = event_type, ev_data = data\<rparr>]\<rparr>"

definition with_metadata ::
  "((string \<times> json) list \<Rightarrow> string) \<Rightarrow> string \<Rightarrow> (string \<times> json) list \<Rightarrow> (string \<times> json) list" where
  \<comment> \<open>\<open>{**data, "_checksum": checksum, "_updated_at": .., "_version": "1.0"}\<close>\<close>
  "with_metadata digest utcnow data =
     AList.update ''_version'' (JStr ''1.0'')
       (AList.update ''_updated_at'' (JStr utcnow)
          (AList.update ''_checksum'' (JStr (compute_checksum digest data)) data))"

definition write_state ::
  "((string \<times> json) list \<Rightarrow> string) \<Rightarrow> string \<Rightarrow> string \<Rightarrow> string \<Rightarrow> (string \<times> json) list
     \<Rightarrow> store \<Rightarrow> (state_error + string) \<times> store" where
  "write_state digest utcnow client_id invoice_no data st0 =
     finally_release (state_file client_id invoice_no)
       (case acquire_lock (state_file client_id invoice_no) st0 of
          Inl e \<Rightarrow> (Inl e, st0)
        | Inr st1 \<Rightarrow>
            (let state_data = with_metadata digest utcnow data;
                 st2 = atomic_write (state_file client_id invoice_no) (JObj state_data) st1;
                 st3 = log_event utcnow client_id invoice_no ''state_update'' (JObj data) st2
             in (Inr (state_file client_id invoice_no), st3)))"

definition attempt_recovery :: "store \<Rightarrow> string \<Rightarrow> json option" where
  "attempt_recovery st p =
     (case disk st (backup_file p) of
        Some (Parsed j) \<Rightarrow> Some j
      | _ \<Rightarrow> None)"

definition recover_or_raise :: "store \<Rightarrow> string \<Rightarrow> state_error + json option" where
  "recover_or_raise st p =
     (case attempt_recovery st p of
        Some recovered \<Rightarrow> if truthy recovered then Inr (Some recovered) else Inl StateCorruptionError
      | None \<Rightarrow> Inl StateCorruptionError)"

definition read_state ::
  "((string \<times> json) list \<Rightarrow> string) \<Rightarrow> string \<Rightarrow> string \<Rightarrow> bool \<Rightarrow> store
     \<Rightarrow> state_error + json option" where
  "read_state digest client_id invoice_no verify_checksum st =
     (case disk st (state_file client_id invoice_no) of
        None \<Rightarrow> Inr None
      | Some Unparsable \<Rightarrow> recover_or_raise st (state_file client_id invoice_no)
      | Some (Parsed j) \<Rightarrow>
          if verify_checksum then
            (case j of
               JObj kvs \<Rightarrow>
                 (let stored_checksum = (case map_of kvs ''_checksum'' of None \<Rightarrow> JNull | Some c \<Rightarrow> c);
                      data = AList.delete ''_checksum'' kvs
                  in if truthy stored_checksum then
                       (let computed = compute_checksum digest data
                        in if stored_checksum \<noteq> JStr computed
                           then recover_or_raise st (state_file client_id invoice_no)
                           else Inr (Some (JObj data)))
                     else Inr (Some (JObj data)))
             | _ \<Rightarrow> Inl TypeError_not_a_dict)
          else Inr (Some j))"

definition paid_data :: "string \<Rightarrow> json \<Rightarrow> (string \<times> json) list \<Rightarrow> (string \<times> json) list" where
  \<comment> \<open>\<open>data["status"] = "paid"; data["paid_at"] = ..; data["payment"] = payment_data\<close>\<close>
  "paid_data utcnow payment_data kvs =
     AList.update ''payment'' payment_data
       (AList.update ''paid_at'' (JStr utcnow)
          (AList.update ''status'' (JStr ''paid'') kvs))"

definition mark_paid ::
  "((string \<times> json) list \<Rightarrow> string) \<Rightarrow> string \<Rightarrow> string \<Rightarrow> string \<Rightarrow> json
     \<Rightarrow> store \<Rightarrow> (state_error + string) \<times> store" where
  "mark_paid digest utcnow client_id invoice_no payment_data st0 =
     (if disk st0 (state_file client_id invoice_no) = None then (Inl FileNotFoundError, st0)
      else finally_release (state_file client_id invoice_no)
        (case acquire_lock (state_file client_id invoice_no) st0 of
           Inl e \<Rightarrow> (Inl e, st0)
         | Inr st1 \<Rightarrow>
             (case read_state digest client_id invoice_no True st1 of
                Inl e \<Rightarrow> (Inl e, st1)
              | Inr (Some (JObj kvs)) \<Rightarrow>
                  (let data = paid_data utcnow payment_data kvs
                   in case write_state digest utcnow client_id invoice_no data st1 of
                        (Inl e, st2) \<Rightarrow> (Inl e, st2)
                      | (Inr written, st2) \<Rightarrow>
                          (let st3 = atomic_write (archive_file client_id invoice_no) (JObj data) st2;
                               st4 = st3\<lparr>disk := (disk st3)(state_file client_id invoice_no := None)\<rparr>;
                               st5 = log_event utcnow client_id invoice_no ''paid'' payment_data st4
                           in (Inr (archive_file client_id invoice_no), st5)))
              | Inr _ \<Rightarrow> (Inl TypeError_not_a_dict, st1))))"

definition create_backup :: "string \<Rightarrow> string \<Rightarrow> store \<Rightarrow> (state_error + string) \<times> store" where
  "create_backup client_id invoice_no st =
     (case disk st (state_file client_id invoice_no) of
        None \<Rightarrow> (Inl FileNotFoundError, st)
      | Some content \<Rightarrow>
          (Inr (backup_file (state_file client_id invoice_no)),
           st\<lparr>disk := (disk st)(backup_file (state_file client_id invoice_no) \<mapsto> content)\<rparr>))"

definition const_digest :: "(string \<times> json) list \<Rightarrow> string" where
  "const_digest data = (if map_of data ''amount'' = Some (JNum 1000) then ''aaaaaaaaaaaaaaaa'' else ''bbbbbbbbbbbbbbbb'')"

definition valid_record :: "(string \<times> json) list" where
  "valid_record =
     [(''amount'', JNum 1000), (''status'', JStr ''unpaid''),
      (''_checksum'', JStr ''aaaaaaaaaaaaaaaa''), (''_updated_at'', JStr ''2026-02-11T12:00:00''),
      (''_version'', JStr ''1.0'')]"

definition tampered_record :: "(string \<times> json) list" where
  "tampered_record =
     [(''amount'', JNum 999), (''status'', JStr ''unpaid''),
      (''_checksum'', JStr ''aaaaaaaaaaaaaaaa''), (''_updated_at'', JStr ''2026-02-11T12:00:00''),
      (''_version'', JStr ''1.0'')]"

definition unsigned_record :: "(string \<times> json) list" where
  "unsigned_record = [(''amount'', JNum 999), (''status'', JStr ''unpaid'')]"

definition store_with :: "(string \<times> json) list \<Rightarrow> file_content option \<Rightarrow> store" where
  "store_with record bak =
     \<lparr>disk = (Map.empty(''acme/INV-001.json'' \<mapsto> Parsed (JObj record)))
               (''acme/INV-001.json.bak'' := bak),
      event_log = [], enable_locking = False, locks = Map.empty\<rparr>"

definition wire_payment :: json where
  "wire_payment = JObj [(''method'', JStr ''wire''), (''amount'', JNum 1000)]"

section \<open>Ledger (\<open>state/ledger.py\<close>)\<close>

text \<open>
  The ledger is the text of its Markdown file together with the running totals the object
  keeps in \<open>self._totals\<close>. \<open>split_lines\<close> and \<open>join_lines\<close> split the text at the newline
  character and join the lines with it, \<open>strip\<close> removes ASCII white space at both ends, \<open>replace_all\<close> is
  \<open>str.replace\<close>, \<open>list_insert\<close> is \<open>list.insert\<close>. The invoice dictionary has the three
  required entries and \<open>due_date\<close>, each possibly absent. Amounts and totals are exact
  reals.
\<close>

definition newline :: char where
  "newline = CHR 0x0A"

definition is_space :: "char \<Rightarrow> bool" where
  "is_space ch \<longleftrightarrow> ch \<in> set [CHR 0x09, CHR 0x0A, CHR 0x0B, CHR 0x0C, CHR 0x0D,
                              CHR 0x1C, CHR 0x1D, CHR 0x1E, CHR 0x1F, CHR 0x20]"

definition strip :: "string \<Rightarrow> string" where
  "strip s = rev (dropWhile is_space (rev (dropWhile is_space s)))"

fun split_lines :: "string \<Rightarrow> string list" where
  "split_lines [] = [[]]"
| "split_lines (ch # rest) =
     (if ch = newline then [] # split_lines rest
      else case split_lines rest of
             line # others \<Rightarrow> (ch # line) # others
           | [] \<Rightarrow> [[ch]])"

fun join_lines :: "string list \<Rightarrow> string" where
  "join_lines [] = []"
| "join_lines [line] = line"
| "join_lines (line # others) = line @ newline # join_lines others"

function replace_all :: "string \<Rightarrow> string \<Rightarrow> string \<Rightarrow> string" where
  "replace_all old new s =
     (if old = [] \<or> s = [] then s
      else if prefix old s then new @ replace_all old new (drop (length old) s)
      else hd s # replace_all old new (tl s))"
  by pat_completeness auto

termination
  by (relation "measure (\<lambda>(old, new, s). length s)") auto

declare replace_all.simps [simp del]

datatype ledger_section = Unpaid | Paid | Escalated

fun title :: "ledger_section \<Rightarrow> string" where
  "title Unpaid = ''Unpaid''"
| "title Paid = ''Paid''"
| "title Escalated = ''Escalated''"

record ledger =
  ledger_text :: string
  totals_unpaid :: real
  totals_paid :: real
  totals_escalated :: real

record invoice_data =
  d_invoice_number :: "string option"
  d_amount :: "real option"
  d_client_name :: "string option"
  d_due_date :: "string option"

datatype ledger_error =
    MissingRequiredFields
  | InvoiceAlreadyExists string
  | SectionNotFound string

definition invoice_exists :: "ledger \<Rightarrow> string \<Rightarrow> bool" where
  "invoice_exists lg invoice_num = contains (ledger_text lg) (''`'' @ invoice_num @ ''`'')"

fun find_section :: "string \<Rightarrow> string list \<Rightarrow> nat \<Rightarrow> nat option \<Rightarrow> nat option \<times> nat option" where
  "find_section section_header [] i section_idx = (section_idx, None)"
| "find_section section_header (line # rest) i section_idx =
     (if strip line = section_header then find_section section_header rest (Suc i) (Some i)
      else if section_idx \<noteq> None \<and> startswith line ''## '' then (section_idx, Some i)
      else find_section section_header rest (Suc i) section_idx)"

definition list_insert :: "nat \<Rightarrow> 'a \<Rightarrow> 'a list \<Rightarrow> 'a list" where
  "list_insert n x xs = take n xs @ x # drop n xs"

definition append_to_section :: "string \<Rightarrow> string \<Rightarrow> ledger \<Rightarrow> ledger_error + ledger" where
  "append_to_section section_header entry lg =
     (let lines = split_lines (ledger_text lg)
      in case find_section section_header lines 0 None of
           (None, next_section_idx) \<Rightarrow> Inl (SectionNotFound section_header)
         | (Some section_idx, next_section_idx) \<Rightarrow>
             (let insert_at = (case next_section_idx of
                                 None \<Rightarrow> section_idx + 2
                               | Some n \<Rightarrow> min (section_idx + 2) n)
              in Inr (lg\<lparr>ledger_text := join_lines (list_insert insert_at entry lines)\<rparr>)))"

definition get_total :: "ledger \<Rightarrow> ledger_section \<Rightarrow> real" where
  "get_total lg sec = (case sec of Unpaid \<Rightarrow> totals_unpaid lg | Paid \<Rightarrow> totals_paid lg
                       | Escalated \<Rightarrow> totals_escalated lg)"

definition add_to_total :: "ledger_section \<Rightarrow> real \<Rightarrow> ledger \<Rightarrow> ledger" where
  "add_to_total sec amt lg =
     (case sec of
        Unpaid \<Rightarrow> lg\<lparr>totals_unpaid := totals_unpaid lg + amt\<rparr>
      | Paid \<Rightarrow> lg\<lparr>totals_paid := totals_paid lg + amt\<rparr>
      | Escalated \<Rightarrow> lg\<lparr>totals_escalated := totals_escalated lg + amt\<rparr>)"

definition sum_totals :: "ledger \<Rightarrow> real" where
  "sum_totals lg = totals_unpaid lg + totals_paid lg + totals_escalated lg"

definition update_totals :: "ledger_section \<Rightarrow> real \<Rightarrow> ledger \<Rightarrow> ledger" where
  "update_totals sec amt lg0 =
     (let lg = add_to_total sec amt lg0;
          old_total = ''**'' @ title sec @ '' Total:** $'' @ fmt_2f False (get_total lg sec - amt);
          new_total = ''**'' @ title sec @ '' Total:** $'' @ fmt_2f False (get_total lg sec);
          content = replace_all old_total new_total (ledger_text lg);
          old_grand = ''**Grand Total:** $'' @ fmt_2f False (sum_totals lg - amt);
          new_grand = ''**Grand Total:** $'' @ fmt_2f False (sum_totals lg)
      in lg\<lparr>ledger_text := replace_all old_grand new_grand content\<rparr>)"

definition unpaid_entry :: "string \<Rightarrow> real \<Rightarrow> string \<Rightarrow> string \<Rightarrow> string" where
  "unpaid_entry invoice_num amt client_nm due =
     ''- `'' @ invoice_num @ ''` | $'' @ fmt_2f True amt @ '' | '' @ client_nm @
     (if due \<noteq> [] then '' | Due: '' @ due else []) @ '' | Status: unpaid''"

definition add_invoice :: "invoice_data \<Rightarrow> ledger \<Rightarrow> (ledger_error + bool) \<times> ledger" where
  "add_invoice d lg =
     (case (d_invoice_number d, d_amount d, d_client_name d) of
        (Some invoice_num, Some amt, Some client_nm) \<Rightarrow>
          (let due = (case d_due_date d of None \<Rightarrow> [] | Some v \<Rightarrow> v)
           in if invoice_exists lg invoice_num then (Inl (InvoiceAlreadyExists invoice_num), lg)
              else case append_to_section ''## Unpaid'' (unpaid_entry invoice_num amt client_nm due) lg of
                     Inl e \<Rightarrow> (Inl e, lg)
                   | Inr lg' \<Rightarrow> (Inr True, update_totals Unpaid amt lg'))
      | _ \<Rightarrow> (Inl MissingRequiredFields, lg))"

definition initial_ledger :: ledger where
  "initial_ledger =
     \<lparr>ledger_text = join_lines
        [''# Collections Ledger'', '''', ''## Unpaid'', '''', ''## Paid'', '''', ''## Escalated'', '''',
         ''## Summary'', ''- **Unpaid Total:** $0.00'', ''- **Paid Total:** $0.00'',
         ''- **Escalated Total:** $0.00'', ''- **Grand Total:** $0.00'', ''''],
      totals_unpaid = 0, totals_paid = 0, totals_escalated = 0\<rparr>"

definition plain_invoice :: invoice_data where
  "plain_invoice = \<lparr>d_invoice_number = Some ''INV-001'', d_amount = Some 1500,
     d_client_name = Some ''ACME'', d_due_date = Some ''2026-02-14''\<rparr>"

definition summary_named_invoice :: invoice_data where
  "summary_named_invoice = \<lparr>d_invoice_number = Some ''**Unpaid Total:** $0.00'', d_amount = Some 5,
     d_client_name = Some ''ACME'', d_due_date = None\<rparr>"

section \<open>Properties\<close>

subsection \<open>Paths\<close>

lemma path_join_relative:
  assumes "last (c # cs) \<noteq> CHR ''/''"
  shows "\<not> startswith b ''/'' \<Longrightarrow> path_join (path_join d (c # cs)) b
     = path_join d (c # cs) @ ''/'' @ b"
proof -
  have ne: "path_join d (c # cs) \<noteq> []"
    by (auto simp: path_join_def)
  have "last (path_join d (c # cs)) = last (c # cs)"
    by (auto simp: path_join_def)
  with assms have "\<not> endswith (path_join d (c # cs)) ''/''"
    using ne by (auto simp: endswith_def suffix_def)
  then show "\<not> startswith b ''/'' \<Longrightarrow> path_join (path_join d (c # cs)) b
     = path_join d (c # cs) @ ''/'' @ b"
    using ne by (simp add: path_join_def[of "path_join d (c # cs)" b])
qed

subsection \<open>Routing thresholds\<close>

text \<open>
  C8. \<open>route_by_confidence\<close> routes a parsed invoice of confidence \<open>c\<close> to \<open>auto\<close>
  (action \<open>create_state\<close>, nothing written) when \<open>c \<ge> 0.95\<close>, writes a review document
  under \<open>review_queue\<close> when \<open>0.85 \<le> c < 0.95\<close>, and writes a manual-entry document under
  \<open>manual\<close> when \<open>c < 0.85\<close>; both boundaries belong to the upper route.
\<close>

theorem route_by_confidence_thresholds:
  fixes pinv :: parsed_invoice and state_dir utcnow :: string and fs :: route_fs
  defines "c \<equiv> confidence pinv"
  defines "r \<equiv> route_by_confidence pinv state_dir utcnow fs"
  shows "(0.95 \<le> c \<longrightarrow>
            status (fst r) = ''auto'' \<and> action (fst r) = ''create_state'' \<and>
            path (fst r) = path_join state_dir ''auto'' \<and> files (snd r) = files fs)
       \<and> (0.85 \<le> c \<and> c < 0.95 \<longrightarrow>
            status (fst r) = ''review'' \<and> action (fst r) = ''queued_for_review'' \<and>
            path (fst r) = path_join (path_join state_dir ''review_queue'') (invoice_id pinv @ ''.json'') \<and>
            (\<not> startswith (invoice_id pinv) ''/'' \<longrightarrow>
               path (fst r) = path_join state_dir ''review_queue'' @ ''/'' @ invoice_id pinv @ ''.json'') \<and>
            files (snd r) (path (fst r)) = Some (ReviewDoc pinv utcnow))
       \<and> (c < 0.85 \<longrightarrow>
            status (fst r) = ''manual'' \<and> action (fst r) = ''requires_human'' \<and>
            path (fst r) = path_join (path_join state_dir ''manual'') (invoice_id pinv @ ''.json'') \<and>
            (\<not> startswith (invoice_id pinv) ''/'' \<longrightarrow>
               path (fst r) = path_join state_dir ''manual'' @ ''/'' @ invoice_id pinv @ ''.json'') \<and>
            (\<exists>reason. files (snd r) (path (fst r)) = Some (ManualDoc pinv utcnow reason)))"
proof -
  have id_json: "\<not> startswith (invoice_id pinv) ''/'' \<Longrightarrow> \<not> startswith (invoice_id pinv @ ''.json'') ''/''"
    by (cases "invoice_id pinv") (auto simp: startswith_def invoice_id_def split: option.splits if_splits)
  have rv: "\<not> startswith (invoice_id pinv) ''/'' \<Longrightarrow>
      path_join (path_join state_dir ''review_queue'') (invoice_id pinv @ ''.json'')
        = path_join state_dir ''review_queue'' @ ''/'' @ invoice_id pinv @ ''.json''"
    using path_join_relative[of "CHR ''r''" "''eview_queue''" "invoice_id pinv @ ''.json''" state_dir] id_json
    by simp
  have mn: "\<not> startswith (invoice_id pinv) ''/'' \<Longrightarrow>
      path_join (path_join state_dir ''manual'') (invoice_id pinv @ ''.json'')
        = path_join state_dir ''manual'' @ ''/'' @ invoice_id pinv @ ''.json''"
    using path_join_relative[of "CHR ''m''" "''anual''" "invoice_id pinv @ ''.json''" state_dir] id_json
    by simp
  show ?thesis
    using rv mn
    by (simp add: r_def c_def route_by_confidence_def Let_def makedirs_def write_doc_def)
qed

theorem route_by_confidence_thresholds_witness:
  "status (fst (route_by_confidence (sample_invoice 0.95) ''state'' ''t0'' empty_route_fs)) = ''auto''
   \<and> files (snd (route_by_confidence (sample_invoice 0.95) ''state'' ''t0'' empty_route_fs)) = Map.empty
   \<and> status (fst (route_by_confidence (sample_invoice 0.85) ''state'' ''t0'' empty_route_fs)) = ''review''
   \<and> path (fst (route_by_confidence (sample_invoice 0.85) ''state'' ''t0'' empty_route_fs))
        = ''state/review_queue/INV-001.json''
   \<and> status (fst (route_by_confidence (sample_invoice 0.849) ''state'' ''t0'' empty_route_fs)) = ''manual''
   \<and> path (fst (route_by_confidence (sample_invoice 0.849) ''state'' ''t0'' empty_route_fs))
        = ''state/manual/INV-001.json''"
  using route_by_confidence_thresholds[of "sample_invoice 0.95" "''state''" "''t0''" empty_route_fs]
        route_by_confidence_thresholds[of "sample_invoice 0.85" "''state''" "''t0''" empty_route_fs]
        route_by_confidence_thresholds[of "sample_invoice 0.849" "''state''" "''t0''" empty_route_fs]
  by (simp add: sample_invoice_def empty_route_fs_def invoice_id_def startswith_def
        endswith_def path_join_def suffix_to_prefix)

subsection \<open>Payment matching\<close>

text \<open>
  C7. Precedence of the exact invoice-number match over the (client, amount within 5%)
  match does not hold regardless of enumeration order: the single loop of
  \<open>_find_matching_invoice\<close> tests both criteria invoice by invoice. For a payment naming
  \<open>INV-002\<close>, from client \<open>acme\<close>, of 100.00, it returns the invoice \<open>INV-001\<close> of \<open>acme\<close>
  (matched by amount) when that one is enumerated first, and \<open>INV-002\<close> only when the
  order is reversed. The scores themselves are 1.0, 0.95 and 0.90.
\<close>

theorem find_matching_invoice_order_dependent:
  "find_matching_invoice (Some 100) (Some ''acme'') (Some ''INV-002'')
       [invoice_by_amount, invoice_by_number] = Some invoice_by_amount
   \<and> find_matching_invoice (Some 100) (Some ''acme'') (Some ''INV-002'')
       [invoice_by_number, invoice_by_amount] = Some invoice_by_number
   \<and> check_payment (Some 100) (Some ''acme'') (Some ''INV-002'')
       [invoice_by_amount, invoice_by_number] = Inr (Some (invoice_by_amount, 1.0))
   \<and> verify_amount (Some 100) (Amount 100) = 1.0
   \<and> verify_amount (Some 90) (Amount 100) = 0.95
   \<and> verify_amount (Some 110) (Amount 100) = 0.90"
  by (simp add: invoice_by_amount_def invoice_by_number_def truthy_str_def truthy_num_def
        check_payment_def verify_amount_def)

subsection \<open>Token validation\<close>

text \<open>
  C3. At the boundary \<open>expires_at - now = BUFFER\<close> (300 s) \<open>validate_before_request\<close> does
  not refresh: it tests \<open>remaining < buffer_seconds\<close>, and hands back the cached token with
  \<open>expires_in = 300\<close>, the validator and its cache untouched, although \<open>is_expired\<close> of the
  same token at the same instant is true. One second later (\<open>remaining = 299\<close>) the refresh
  runs and the cached expiry moves to \<open>now + 3600\<close>.
\<close>

theorem validate_before_request_boundary:
  "validate_before_request (calm_env 1000) 1000 ''acct'' 300 (sample_validator 1300)
     = (Inr \<lparr>ti_access_token = ''tok-0001'', ti_token_type = ''Bearer'', ti_expires_in = 300,
             ti_refresh_token = Some ''refresh-0001'', ti_account_id = ''acct''\<rparr>,
        sample_validator 1300)
   \<and> is_expired 1000 (sample_token 1300)
   \<and> validate_before_request (calm_env 1001) 1001 ''acct'' 300 (sample_validator 1300)
     = (Inr \<lparr>ti_access_token = ''tok-0001'', ti_token_type = ''Bearer'', ti_expires_in = 3600,
             ti_refresh_token = Some ''refresh-0001'', ti_account_id = ''acct''\<rparr>,
        sample_validator 4601)"
  by (simp add: validate_before_request_def silent_refresh_def sample_validator_def
        sample_token_def calm_env_def is_expired_def py_int_def numeral_3_eq_3)

subsection \<open>Rate limiter\<close>

lemma dropWhile_sorted_filter:
  "sorted xs \<Longrightarrow> dropWhile (\<lambda>t. t < c) xs = filter (\<lambda>t. c \<le> t) (xs :: real list)"
proof (induction xs)
  case Nil
  then show ?case by simp
next
  case (Cons x xs)
  show ?case
  proof (cases "x < c")
    case True
    with Cons show ?thesis by simp
  next
    case False
    with Cons.prems have "\<forall>y\<in>set (x # xs). c \<le> y" by auto
    then have "filter (\<lambda>t. c \<le> t) (x # xs) = x # xs"
      by (simp only: filter_id_conv)
    with False show ?thesis by simp
  qed
qed

lemma try_acquire_iff:
  "fst (try_acquire cfg now s) \<longleftrightarrow>
     0 < daily_tokens (refill_daily_tokens cfg now s) \<and>
     int (length (dropWhile (\<lambda>t. t < now - cycle_seconds cfg) (cycle_queue s))) < max_per_cycle cfg"
  by (auto simp: try_acquire_def can_consume_cycle_token_def cleanup_cycle_queue_def Let_def
        refill_daily_tokens_def split: prod.splits bool.splits)

lemma try_acquire_consumes:
  "fst (try_acquire cfg now s) \<Longrightarrow>
     daily_tokens (snd (try_acquire cfg now s)) = daily_tokens (refill_daily_tokens cfg now s) - 1 \<and>
     cycle_queue (snd (try_acquire cfg now s))
       = dropWhile (\<lambda>t. t < now - cycle_seconds cfg) (cycle_queue s) @ [now]"
  by (auto simp: try_acquire_def can_consume_cycle_token_def cleanup_cycle_queue_def Let_def
        refill_daily_tokens_def consume_cycle_token_def split: prod.splits bool.splits if_splits)

lemma try_acquire_rejects:
  "\<not> fst (try_acquire cfg now s) \<Longrightarrow>
     daily_tokens (snd (try_acquire cfg now s)) = daily_tokens (refill_daily_tokens cfg now s) \<and>
     (0 < daily_tokens (refill_daily_tokens cfg now s) \<longrightarrow> cycle_queue (snd (try_acquire cfg now s))
       = dropWhile (\<lambda>t. t < now - cycle_seconds cfg) (cycle_queue s))"
  by (auto simp: try_acquire_def can_consume_cycle_token_def cleanup_cycle_queue_def Let_def
        refill_daily_tokens_def consume_cycle_token_def split: prod.splits bool.splits if_splits)

lemma budget_refill: "budget cfg s \<le> daily_tokens (refill_daily_tokens cfg now s)"
  by (simp add: budget_def refill_daily_tokens_def)

lemma budget_after_accept:
  "fst (try_acquire cfg now s) \<Longrightarrow> budget cfg s - 1 \<le> budget cfg (snd (try_acquire cfg now s))"
  using try_acquire_consumes[of cfg now s] budget_refill[of cfg s now]
  by (auto simp: budget_def)

lemma dropWhile_none: "\<forall>u\<in>set q. \<not> P u \<Longrightarrow> dropWhile P q = q"
  by (cases q) auto

lemma dropWhile_all: "\<forall>u\<in>set q. P u \<Longrightarrow> dropWhile P q = []"
  by (induction q) auto

lemma run_all_accepted:
  assumes "\<forall>t\<in>set ts. t \<le> b"
    and "\<forall>u\<in>set (cycle_queue s) \<union> set ts. b - cycle_seconds cfg \<le> u"
    and "int (length (cycle_queue s)) + int (length ts) \<le> max_per_cycle cfg"
    and "int (length ts) \<le> budget cfg s"
  shows "fst (run_acquires cfg ts s) = replicate (length ts) True
       \<and> cycle_queue (snd (run_acquires cfg ts s)) = cycle_queue s @ ts
       \<and> budget cfg s - int (length ts) \<le> budget cfg (snd (run_acquires cfg ts s))"
  using assms
proof (induction ts arbitrary: s)
  case Nil
  then show ?case by simp
next
  case (Cons t ts)
  have keep: "dropWhile (\<lambda>u. u < t - cycle_seconds cfg) (cycle_queue s) = cycle_queue s"
  proof (rule dropWhile_none, rule ballI)
    fix u assume "u \<in> set (cycle_queue s)"
    with Cons.prems(2) have "b - cycle_seconds cfg \<le> u" by simp
    moreover from Cons.prems(1) have "t \<le> b" by simp
    ultimately show "\<not> u < t - cycle_seconds cfg" by linarith
  qed
  have tok: "0 < daily_tokens (refill_daily_tokens cfg t s)"
    using Cons.prems(4) budget_refill[of cfg s t] by simp
  have ok: "fst (try_acquire cfg t s)"
    unfolding try_acquire_iff keep using Cons.prems(3) tok by simp
  define s' where "s' = snd (try_acquire cfg t s)"
  have q': "cycle_queue s' = cycle_queue s @ [t]"
    using try_acquire_consumes[OF ok] keep by (simp add: s'_def)
  have b': "budget cfg s - 1 \<le> budget cfg s'"
    using budget_after_accept[OF ok] by (simp add: s'_def)
  have IH: "fst (run_acquires cfg ts s') = replicate (length ts) True
       \<and> cycle_queue (snd (run_acquires cfg ts s')) = cycle_queue s' @ ts
       \<and> budget cfg s' - int (length ts) \<le> budget cfg (snd (run_acquires cfg ts s'))"
    using Cons.prems q' b' by (intro Cons.IH) auto
  have step: "run_acquires cfg (t # ts) s
      = (True # fst (run_acquires cfg ts s'), snd (run_acquires cfg ts s'))"
    using ok by (simp add: s'_def Let_def)
  show ?case
    unfolding step using IH q' b' by simp
qed

lemma try_acquire_budget_mono:
  "\<not> fst (try_acquire cfg now s) \<Longrightarrow> budget cfg s \<le> budget cfg (snd (try_acquire cfg now s))"
  using try_acquire_rejects[of cfg now s] budget_refill[of cfg s now]
  by (auto simp: budget_def)

lemma try_acquire_rejects_queue:
  "\<not> fst (try_acquire cfg now s) \<Longrightarrow>
     cycle_queue (snd (try_acquire cfg now s)) = cycle_queue s \<or>
     cycle_queue (snd (try_acquire cfg now s))
       = dropWhile (\<lambda>t. t < now - cycle_seconds cfg) (cycle_queue s)"
  by (auto simp: try_acquire_def can_consume_cycle_token_def cleanup_cycle_queue_def Let_def
        refill_daily_tokens_def split: prod.splits bool.splits if_splits)

lemma run_acquires_append:
  "run_acquires cfg (xs @ ys) s =
     (fst (run_acquires cfg xs s) @ fst (run_acquires cfg ys (snd (run_acquires cfg xs s))),
      snd (run_acquires cfg ys (snd (run_acquires cfg xs s))))"
  by (induction xs arbitrary: s) (simp_all add: Let_def)

lemma try_acquire_sorted:
  assumes "sorted (cycle_queue s)" and "\<forall>u\<in>set (cycle_queue s). u \<le> now"
  shows "sorted (cycle_queue (snd (try_acquire cfg now s)))
       \<and> (\<forall>u\<in>set (cycle_queue (snd (try_acquire cfg now s))). u \<le> now)"
proof -
  let ?q = "dropWhile (\<lambda>t. t < now - cycle_seconds cfg) (cycle_queue s)"
  have sq: "sorted ?q"
    using assms(1) by (simp add: sorted_dropWhile)
  have bq: "\<forall>u\<in>set ?q. u \<le> now"
    using assms(2) set_dropWhileD by fast
  show ?thesis
  proof (cases "fst (try_acquire cfg now s)")
    case True
    then have "cycle_queue (snd (try_acquire cfg now s)) = ?q @ [now]"
      using try_acquire_consumes by blast
    with sq bq show ?thesis by (simp add: sorted_append)
  next
    case False
    then show ?thesis
      using try_acquire_rejects_queue[OF False] sq bq assms by auto
  qed
qed

lemma run_after_expiry:
  assumes old: "\<forall>u\<in>set (cycle_queue s). \<forall>t\<in>set ts. u < t - cycle_seconds cfg"
    and win: "\<forall>t\<in>set ts. b - cycle_seconds cfg \<le> t \<and> t \<le> b"
    and cap: "int (length ts) \<le> max_per_cycle cfg"
    and bud: "int (length ts) \<le> budget cfg s"
  shows "fst (run_acquires cfg ts s) = replicate (length ts) True
       \<and> (ts \<noteq> [] \<longrightarrow> cycle_queue (snd (run_acquires cfg ts s)) = ts)"
proof (cases ts)
  case Nil
  then show ?thesis by simp
next
  case (Cons t rest)
  have gone: "dropWhile (\<lambda>u. u < t - cycle_seconds cfg) (cycle_queue s) = []"
    using old Cons by (intro dropWhile_all) simp
  have tok: "0 < daily_tokens (refill_daily_tokens cfg t s)"
    using bud budget_refill[of cfg s t] Cons by simp
  have ok: "fst (try_acquire cfg t s)"
    unfolding try_acquire_iff gone using cap tok Cons by simp
  define s' where "s' = snd (try_acquire cfg t s)"
  have q': "cycle_queue s' = [t]"
    using try_acquire_consumes[OF ok] gone by (simp add: s'_def)
  have b': "budget cfg s - 1 \<le> budget cfg s'"
    using budget_after_accept[OF ok] by (simp add: s'_def)
  have rest: "fst (run_acquires cfg rest s') = replicate (length rest) True
       \<and> cycle_queue (snd (run_acquires cfg rest s')) = cycle_queue s' @ rest
       \<and> budget cfg s' - int (length rest) \<le> budget cfg (snd (run_acquires cfg rest s'))"
  proof (rule run_all_accepted[where b = b])
    show "\<forall>t\<in>set rest. t \<le> b" using win Cons by simp
    show "\<forall>u\<in>set (cycle_queue s') \<union> set rest. b - cycle_seconds cfg \<le> u"
      using win Cons q' by simp
    show "int (length (cycle_queue s')) + int (length rest) \<le> max_per_cycle cfg"
      using cap Cons q' by simp
    show "int (length rest) \<le> budget cfg s'"
      using bud b' Cons by simp
  qed
  have step: "run_acquires cfg (t # rest) s
      = (True # fst (run_acquires cfg rest s'), snd (run_acquires cfg rest s'))"
    using ok by (simp add: s'_def Let_def)
  show ?thesis
    unfolding Cons step using rest q' by simp
qed

text \<open>
  C5. With the queue in time order, \<open>try_acquire\<close> succeeds exactly when fewer than
  \<open>max_per_cycle\<close> timestamps lie within the last \<open>cycle_seconds\<close> and the daily budget
  (after the refill check) is positive; it keeps the queue ordered; on success it takes one
  daily token and appends the timestamp. In a 20-per-60 limiter with an empty queue and
  budget for it, of 21 acquisitions inside one window of 60 seconds the first 20 succeed
  and the 21st is refused, and 20 acquisitions inside a later window, after the old
  entries have expired, succeed again.
\<close>

theorem try_acquire_both_bounds:
  fixes cfg :: rate_limit_config and s :: limiter and now b b' t21 :: real
    and ts ts' :: "real list"
  shows "(sorted (cycle_queue s) \<and> (\<forall>u\<in>set (cycle_queue s). u \<le> now) \<longrightarrow>
            (fst (try_acquire cfg now s) \<longleftrightarrow>
               int (length (filter (\<lambda>t. now - cycle_seconds cfg \<le> t) (cycle_queue s))) < max_per_cycle cfg
               \<and> 0 < daily_tokens (refill_daily_tokens cfg now s))
            \<and> sorted (cycle_queue (snd (try_acquire cfg now s)))
            \<and> (\<forall>u\<in>set (cycle_queue (snd (try_acquire cfg now s))). u \<le> now))
       \<and> (sorted (cycle_queue s) \<and> fst (try_acquire cfg now s) \<longrightarrow>
            daily_tokens (snd (try_acquire cfg now s))
              = daily_tokens (refill_daily_tokens cfg now s) - 1
            \<and> cycle_queue (snd (try_acquire cfg now s))
              = filter (\<lambda>t. now - cycle_seconds cfg \<le> t) (cycle_queue s) @ [now])
       \<and> (max_per_cycle cfg = 20 \<and> cycle_seconds cfg = 60 \<and> cycle_queue s = [] \<and>
          40 \<le> budget cfg s \<and>
          length ts = 20 \<and> (\<forall>t\<in>set (ts @ [t21]). b - 60 \<le> t \<and> t \<le> b) \<and>
          length ts' = 20 \<and> (\<forall>t\<in>set ts'. b + 60 < t \<and> b' - 60 \<le> t \<and> t \<le> b') \<longrightarrow>
            fst (run_acquires cfg (ts @ [t21]) s) = replicate 20 True @ [False]
            \<and> fst (run_acquires cfg ts' (snd (run_acquires cfg (ts @ [t21]) s))) = replicate 20 True)"
proof (intro conjI impI)
  assume a: "sorted (cycle_queue s) \<and> (\<forall>u\<in>set (cycle_queue s). u \<le> now)"
  then show "fst (try_acquire cfg now s) \<longleftrightarrow>
      int (length (filter (\<lambda>t. now - cycle_seconds cfg \<le> t) (cycle_queue s))) < max_per_cycle cfg
      \<and> 0 < daily_tokens (refill_daily_tokens cfg now s)"
    by (auto simp: try_acquire_iff dropWhile_sorted_filter)
  from a show "sorted (cycle_queue (snd (try_acquire cfg now s)))"
    using try_acquire_sorted by blast
  from a show "\<forall>u\<in>set (cycle_queue (snd (try_acquire cfg now s))). u \<le> now"
    using try_acquire_sorted by blast
next
  assume a: "sorted (cycle_queue s) \<and> fst (try_acquire cfg now s)"
  then show "daily_tokens (snd (try_acquire cfg now s))
      = daily_tokens (refill_daily_tokens cfg now s) - 1"
    using try_acquire_consumes by blast
  from a show "cycle_queue (snd (try_acquire cfg now s))
      = filter (\<lambda>t. now - cycle_seconds cfg \<le> t) (cycle_queue s) @ [now]"
    using try_acquire_consumes[of cfg now s] by (simp add: dropWhile_sorted_filter)
next
  assume a: "max_per_cycle cfg = 20 \<and> cycle_seconds cfg = 60 \<and> cycle_queue s = [] \<and>
          40 \<le> budget cfg s \<and>
          length ts = 20 \<and> (\<forall>t\<in>set (ts @ [t21]). b - 60 \<le> t \<and> t \<le> b) \<and>
          length ts' = 20 \<and> (\<forall>t\<in>set ts'. b + 60 < t \<and> b' - 60 \<le> t \<and> t \<le> b')"
  define s1 where "s1 = snd (run_acquires cfg ts s)"
  define s2 where "s2 = snd (try_acquire cfg t21 s1)"
  have first: "fst (run_acquires cfg ts s) = replicate (length ts) True
       \<and> cycle_queue (snd (run_acquires cfg ts s)) = cycle_queue s @ ts
       \<and> budget cfg s - int (length ts) \<le> budget cfg (snd (run_acquires cfg ts s))"
    using a by (intro run_all_accepted[where b = b]) auto
  then have q1: "cycle_queue s1 = ts" and b1: "20 \<le> budget cfg s1"
    using a by (auto simp: s1_def)
  have keep: "dropWhile (\<lambda>u. u < t21 - cycle_seconds cfg) (cycle_queue s1) = ts"
    unfolding q1
  proof (rule dropWhile_none, rule ballI)
    fix u assume "u \<in> set ts"
    with a have "b - 60 \<le> u" by simp
    moreover from a have "t21 \<le> b" by simp
    ultimately show "\<not> u < t21 - cycle_seconds cfg" using a by simp
  qed
  have rej: "\<not> fst (try_acquire cfg t21 s1)"
    unfolding try_acquire_iff keep using a by simp
  have q2: "cycle_queue s2 = ts"
    using try_acquire_rejects_queue[OF rej] keep q1 by (auto simp: s2_def)
  have b2: "20 \<le> budget cfg s2"
    using try_acquire_budget_mono[OF rej] b1 by (simp add: s2_def)
  have run21: "run_acquires cfg (ts @ [t21]) s = (fst (run_acquires cfg ts s) @ [False], s2)"
    using rej by (simp add: run_acquires_append s1_def s2_def Let_def)
  show "fst (run_acquires cfg (ts @ [t21]) s) = replicate 20 True @ [False]"
    using first a by (simp add: run21)
  have "fst (run_acquires cfg ts' s2) = replicate (length ts') True
       \<and> (ts' \<noteq> [] \<longrightarrow> cycle_queue (snd (run_acquires cfg ts' s2)) = ts')"
  proof (rule run_after_expiry[where b = b'])
    show "\<forall>u\<in>set (cycle_queue s2). \<forall>t\<in>set ts'. u < t - cycle_seconds cfg"
    proof (intro ballI)
      fix u t assume "u \<in> set (cycle_queue s2)" "t \<in> set ts'"
      with a q2 have "u \<le> b" "b + 60 < t" by auto
      then show "u < t - cycle_seconds cfg" using a by simp
    qed
    show "\<forall>t\<in>set ts'. b' - cycle_seconds cfg \<le> t \<and> t \<le> b'" using a by simp
    show "int (length ts') \<le> max_per_cycle cfg" using a by simp
    show "int (length ts') \<le> budget cfg s2" using a b2 by simp
  qed
  then show "fst (run_acquires cfg ts' (snd (run_acquires cfg (ts @ [t21]) s))) = replicate 20 True"
    using a by (simp add: run21)
qed

theorem try_acquire_both_bounds_witness:
  "fst (try_acquire default_config 0 (new_limiter default_config 0))
   \<and> daily_tokens (snd (try_acquire default_config 0 (new_limiter default_config 0))) = 99
   \<and> cycle_queue (snd (try_acquire default_config 0 (new_limiter default_config 0))) = [0]
   \<and> fst (run_acquires default_config (first_window @ [20]) (new_limiter default_config 0))
        = replicate 20 True @ [False]
   \<and> fst (run_acquires default_config second_window
            (snd (run_acquires default_config (first_window @ [20]) (new_limiter default_config 0))))
        = replicate 20 True"
proof -
  have h: "max_per_cycle default_config = 20 \<and> cycle_seconds default_config = 60 \<and>
      cycle_queue (new_limiter default_config 0) = [] \<and>
      40 \<le> budget default_config (new_limiter default_config 0) \<and>
      length first_window = 20 \<and> (\<forall>t\<in>set (first_window @ [20]). 20 - 60 \<le> t \<and> t \<le> 20) \<and>
      length second_window = 20 \<and>
      (\<forall>t\<in>set second_window. 20 + 60 < t \<and> 100 - 60 \<le> t \<and> t \<le> 100)"
    by (auto simp: default_config_def new_limiter_def budget_def first_window_def second_window_def)
  have g: "sorted (cycle_queue (new_limiter default_config 0)) \<and>
      (\<forall>u\<in>set (cycle_queue (new_limiter default_config 0)). u \<le> 0)"
    by (simp add: new_limiter_def)
  have r: "refill_daily_tokens default_config 0 (new_limiter default_config 0)
      = new_limiter default_config 0"
    by (simp add: refill_daily_tokens_def new_limiter_def default_config_def)
  from try_acquire_both_bounds[of "new_limiter default_config 0" 0 default_config
         first_window 20 20 second_window 100] h g r
  show ?thesis
    by (simp add: new_limiter_def default_config_def)
qed

subsection \<open>Reminder scheduler\<close>

lemma invoice_reminders_spec:
  "r \<in> set (invoice_reminders invoice d rules) \<longleftrightarrow>
     (\<exists>(rule_name, rule, template) \<in> set rules. rule_fires rule d \<and>
        r = \<lparr>r_invoice = invoice, r_rule = rule_name, r_template = template,
             r_days = rule_days rule d\<rparr>)"
  by (induction invoice d rules rule: invoice_reminders.induct) auto

lemma get_due_reminders_spec:
  "get_due_reminders now unpaid = Inr rs \<Longrightarrow>
     r \<in> set rs \<longleftrightarrow>
       (\<exists>invoice \<in> set unpaid. \<exists>due. due_date_iso invoice = Some due \<and>
          r \<in> set (invoice_reminders invoice (days_until_due due now) REMINDER_RULES))"
proof (induction unpaid arbitrary: rs)
  case Nil
  then show ?case by simp
next
  case (Cons invoice rest)
  then show ?case
    by (auto split: option.splits sum.splits)
qed

lemma get_due_reminders_defined:
  "(\<exists>rs. get_due_reminders now unpaid = Inr rs) \<longleftrightarrow> (\<forall>invoice\<in>set unpaid. due_date_iso invoice \<noteq> None)"
  by (induction unpaid) (auto split: option.splits sum.splits)

lemma rule_names_distinct: "distinct (map fst REMINDER_RULES)"
  by (simp add: REMINDER_RULES_def)

lemma get_due_reminders_pair:
  assumes "get_due_reminders now unpaid = Inr rs"
    and "invoice \<in> set unpaid" and "due_date_iso invoice = Some due"
    and "(rule_name, rule, template) \<in> set REMINDER_RULES"
  shows "(\<exists>r\<in>set rs. r_invoice r = invoice \<and> r_rule r = rule_name)
           \<longleftrightarrow> rule_fires rule (days_until_due due now)"
proof
  assume "\<exists>r\<in>set rs. r_invoice r = invoice \<and> r_rule r = rule_name"
  then obtain r where r: "r \<in> set rs" "r_invoice r = invoice" "r_rule r = rule_name" by blast
  from r(1) assms(1) obtain i d where i: "i \<in> set unpaid" "due_date_iso i = Some d"
      "r \<in> set (invoice_reminders i (days_until_due d now) REMINDER_RULES)"
    using get_due_reminders_spec by blast
  from i(3) obtain n' ru' t' where f: "(n', ru', t') \<in> set REMINDER_RULES"
      "rule_fires ru' (days_until_due d now)"
      "r = \<lparr>r_invoice = i, r_rule = n', r_template = t', r_days = rule_days ru' (days_until_due d now)\<rparr>"
    unfolding invoice_reminders_spec by blast
  from f(3) r(2,3) have "i = invoice" "n' = rule_name" by auto
  with i(2) assms(3) have "d = due" by simp
  from f(1) assms(4) \<open>n' = rule_name\<close> rule_names_distinct have "ru' = rule"
    by (metis eq_key_imp_eq_value prod.inject)
  with f(2) \<open>d = due\<close> show "rule_fires rule (days_until_due due now)" by simp
next
  assume "rule_fires rule (days_until_due due now)"
  with assms(4) have "\<lparr>r_invoice = invoice, r_rule = rule_name, r_template = template,
      r_days = rule_days rule (days_until_due due now)\<rparr>
        \<in> set (invoice_reminders invoice (days_until_due due now) REMINDER_RULES)"
    unfolding invoice_reminders_spec by blast
  with assms(1,2,3) have "\<lparr>r_invoice = invoice, r_rule = rule_name, r_template = template,
      r_days = rule_days rule (days_until_due due now)\<rparr> \<in> set rs"
    using get_due_reminders_spec by blast
  then show "\<exists>r\<in>set rs. r_invoice r = invoice \<and> r_rule r = rule_name"
    by force
qed

lemma get_due_reminders_ignores_log:
  "get_due_reminders now (map (\<lambda>i. i\<lparr>reminder_log := f i\<rparr>) unpaid)
     = map_sum id (map (\<lambda>r. r\<lparr>r_invoice := (r_invoice r)\<lparr>reminder_log := f (r_invoice r)\<rparr>\<rparr>))
         (get_due_reminders now unpaid)"
proof (induction unpaid)
  case Nil
  then show ?case by simp
next
  case (Cons invoice rest)
  have inner: "invoice_reminders (invoice\<lparr>reminder_log := f invoice\<rparr>) d rules
      = map (\<lambda>r. r\<lparr>r_invoice := (r_invoice r)\<lparr>reminder_log := f (r_invoice r)\<rparr>\<rparr>)
          (invoice_reminders invoice d rules)" for d rules
    by (induction invoice d rules rule: invoice_reminders.induct) auto
  show ?case
    using Cons by (auto simp: inner split: option.splits sum.splits)
qed

lemma invoice_reminders_3d:
  "invoice_reminders invoice 3 REMINDER_RULES = [reminder_3d invoice]"
  by (simp add: REMINDER_RULES_def reminder_3d_def)

lemma days_until_due_3d: "days_until_due (now + 259200000000) now = 3"
  by (simp add: days_until_due_def)

lemma get_due_reminders_3d:
  "\<forall>i\<in>set unpaid. due_date_iso i = Some (now + 259200000000) \<Longrightarrow>
     get_due_reminders now unpaid = Inr (map reminder_3d unpaid)"
  by (induction unpaid) (simp_all add: days_until_due_3d invoice_reminders_3d)

lemma send_loop_all_delivered:
  assumes "\<forall>r\<in>set rs. \<not> is_paused (client (r_invoice r))"
    and "fst (run_acquires cfg (replicate (length rs) t) l) = replicate (length rs) True"
  shows "send_loop (limited_sender cfg t) is_paused rs (c, l, calls)
       = (c\<lparr>sent := sent c + length rs\<rparr>,
          snd (run_acquires cfg (replicate (length rs) t) l),
          calls @ map sent_call rs)"
  using assms
proof (induction rs arbitrary: c l calls)
  case Nil
  then show ?case by simp
next
  case (Cons r rs)
  from Cons.prems(2) have ok: "fst (try_acquire cfg t l)"
    and rest: "fst (run_acquires cfg (replicate (length rs) t) (snd (try_acquire cfg t l)))
                 = replicate (length rs) True"
    by (simp_all add: Let_def)
  from Cons.prems(1) have np: "\<not> is_paused (client (r_invoice r))"
    and nps: "\<forall>r\<in>set rs. \<not> is_paused (client (r_invoice r))" by simp_all
  have "send_loop (limited_sender cfg t) is_paused (r # rs) (c, l, calls)
      = send_loop (limited_sender cfg t) is_paused rs
          (c\<lparr>sent := sent c + 1\<rparr>, snd (try_acquire cfg t l), calls @ [sent_call r])"
    using ok np by (simp add: limited_sender_def Let_def)
  also have "\<dots> = (c\<lparr>sent := sent c + 1\<rparr>\<lparr>sent := sent (c\<lparr>sent := sent c + 1\<rparr>) + length rs\<rparr>,
          snd (run_acquires cfg (replicate (length rs) t) (snd (try_acquire cfg t l))),
          (calls @ [sent_call r]) @ map sent_call rs)"
    using Cons.IH[OF nps rest] by simp
  finally show ?case by (simp add: Let_def)
qed

lemma send_reminders_two_batches:
  assumes cfg: "max_per_cycle cfg = 20" "cycle_seconds cfg = 60"
    and fresh: "cycle_queue l = []" "40 \<le> budget cfg l"
    and due: "get_due_reminders now unpaid = Inr rs" "get_due_reminders now' unpaid = Inr rs"
    and more: "20 < length rs"
    and np: "\<forall>r\<in>set rs. \<not> is_paused (client (r_invoice r))"
    and later: "t + 60 < t'"
  defines "l1 \<equiv> snd (run_acquires cfg (replicate 20 t) l)"
  defines "l2 \<equiv> snd (run_acquires cfg (replicate 20 t') l1)"
  shows "send_reminders (limited_sender cfg t) is_paused now 20 unpaid l
           = Inr (\<lparr>sent = 20, failed = 0, rate_limited = 0\<rparr>, l1, map sent_call (take 20 rs))"
    and "send_reminders (limited_sender cfg t') is_paused now' 20 unpaid l1
           = Inr (\<lparr>sent = 20, failed = 0, rate_limited = 0\<rparr>, l2, map sent_call (take 20 rs))"
proof -
  have len: "length (take 20 rs) = 20" using more by simp
  have len': "min (length rs) 20 = 20" using more by simp
  have np20: "\<forall>r\<in>set (take 20 rs). \<not> is_paused (client (r_invoice r))"
    using np by (meson in_set_takeD)
  have first: "fst (run_acquires cfg (replicate 20 t) l) = replicate (length (replicate 20 t)) True
       \<and> cycle_queue (snd (run_acquires cfg (replicate 20 t) l)) = cycle_queue l @ replicate 20 t
       \<and> budget cfg l - int (length (replicate 20 t)) \<le> budget cfg (snd (run_acquires cfg (replicate 20 t) l))"
    using cfg fresh by (intro run_all_accepted[where b = t]) auto
  then have q1: "cycle_queue l1 = replicate 20 t" and b1: "20 \<le> budget cfg l1"
    using fresh by (auto simp: l1_def)
  have run1: "fst (run_acquires cfg (replicate (length (take 20 rs)) t) l)
      = replicate (length (take 20 rs)) True"
    using first by (simp add: len')
  from send_loop_all_delivered[OF np20 run1] show "send_reminders (limited_sender cfg t) is_paused now 20 unpaid l
           = Inr (\<lparr>sent = 20, failed = 0, rate_limited = 0\<rparr>, l1, map sent_call (take 20 rs))"
    using due(1) by (simp add: send_reminders_def py_slice_to_def len' l1_def)
  have second: "fst (run_acquires cfg (replicate 20 t') l1) = replicate (length (replicate 20 t')) True
       \<and> (replicate 20 t' \<noteq> [] \<longrightarrow> cycle_queue (snd (run_acquires cfg (replicate 20 t') l1)) = replicate 20 t')"
    using cfg q1 b1 later by (intro run_after_expiry[where b = t']) auto
  have run2: "fst (run_acquires cfg (replicate (length (take 20 rs)) t') l1)
      = replicate (length (take 20 rs)) True"
    using second by (simp add: len')
  from send_loop_all_delivered[OF np20 run2] show "send_reminders (limited_sender cfg t') is_paused now' 20 unpaid l1
           = Inr (\<lparr>sent = 20, failed = 0, rate_limited = 0\<rparr>, l2, map sent_call (take 20 rs))"
    using due(2) by (simp add: send_reminders_def py_slice_to_def len' l2_def)
qed

lemma unpaid21_due: "get_due_reminders 0 unpaid21 = Inr (map reminder_3d unpaid21)"
  by (rule get_due_reminders_3d) (simp add: unpaid21_def due_invoice_def)

lemma unpaid21_length: "length (map reminder_3d unpaid21) = 21"
  by (simp add: unpaid21_def)

text \<open>
  C1 (as the code has it). \<open>get_due_reminders\<close> returns the pair of an unpaid invoice and a
  rule exactly when the invoice's \<open>days_until_due\<close> equals the rule's offset
  (\<open>days_before_due\<close>, or minus \<open>days_after_due\<close>); the \<open>reminder_log\<close> is not read:
  replacing the logs by anything leaves the returned pairs the same.
\<close>

theorem get_due_reminders_by_offset_only:
  assumes "get_due_reminders now unpaid = Inr rs"
    and "invoice \<in> set unpaid" and "due_date_iso invoice = Some due"
    and "(rule_name, rule, template) \<in> set REMINDER_RULES"
  shows "((\<exists>r\<in>set rs. r_invoice r = invoice \<and> r_rule r = rule_name)
            \<longleftrightarrow> rule_fires rule (days_until_due due now))
       \<and> get_due_reminders now (map (\<lambda>i. i\<lparr>reminder_log := f i\<rparr>) unpaid)
           = Inr (map (\<lambda>r. r\<lparr>r_invoice := (r_invoice r)\<lparr>reminder_log := f (r_invoice r)\<rparr>\<rparr>) rs)"
  using get_due_reminders_pair[OF assms] get_due_reminders_ignores_log[of now f unpaid] assms(1)
  by simp

theorem get_due_reminders_by_offset_only_witness:
  "get_due_reminders 0 [logged_invoice] = Inr [reminder_3d logged_invoice]
   \<and> logged_invoice \<in> set [logged_invoice]
   \<and> due_date_iso logged_invoice = Some 259200000000
   \<and> (''reminder_1'', DaysBeforeDue 3, ''reminder_3d'') \<in> set REMINDER_RULES
   \<and> r_invoice (reminder_3d logged_invoice) = logged_invoice
   \<and> r_rule (reminder_3d logged_invoice) = ''reminder_1''
   \<and> rule_fires (DaysBeforeDue 3) (days_until_due 259200000000 0)
   \<and> get_due_reminders 0 (map (\<lambda>i. i\<lparr>reminder_log := []\<rparr>) [logged_invoice])
        = Inr (map (\<lambda>r. r\<lparr>r_invoice := (r_invoice r)\<lparr>reminder_log := []\<rparr>\<rparr>) [reminder_3d logged_invoice])"
proof -
  have a: "get_due_reminders 0 [logged_invoice] = Inr [reminder_3d logged_invoice]"
    using get_due_reminders_3d[of "[logged_invoice]" 0]
    by (simp add: logged_invoice_def due_invoice_def)
  have b: "logged_invoice \<in> set [logged_invoice]" by simp
  have c: "due_date_iso logged_invoice = Some 259200000000"
    by (simp add: logged_invoice_def due_invoice_def)
  have d: "(''reminder_1'', DaysBeforeDue 3, ''reminder_3d'') \<in> set REMINDER_RULES"
    by (simp add: REMINDER_RULES_def)
  have e: "r_invoice (reminder_3d logged_invoice) = logged_invoice"
    and f: "r_rule (reminder_3d logged_invoice) = ''reminder_1''"
    by (simp_all add: reminder_3d_def)
  from get_due_reminders_by_offset_only[OF a b c d, of "\<lambda>i. []"] a b c d e f
  show ?thesis by auto
qed

text \<open>
  C1 as stated fails: an invoice due in three days whose \<open>reminder_log\<close> already holds
  \<open>reminder_1\<close> is returned with the rule \<open>reminder_1\<close> again, and \<open>send_reminders\<close> sends
  and records it once more.
\<close>

theorem get_due_reminders_ignores_reminder_log:
  "get_due_reminders 0 [logged_invoice] = Inr [reminder_3d logged_invoice]
   \<and> r_rule (reminder_3d logged_invoice) \<in> set (reminder_log (r_invoice (reminder_3d logged_invoice)))
   \<and> send_reminders always_delivers nobody_paused 0 20 [logged_invoice] ()
       = Inr (\<lparr>sent = 1, failed = 0, rate_limited = 0\<rparr>, (),
              [RecordEmailSent (client logged_invoice) (number logged_invoice) ''reminder_1''])"
proof -
  have a: "get_due_reminders 0 [logged_invoice] = Inr [reminder_3d logged_invoice]"
    using get_due_reminders_3d[of "[logged_invoice]" 0]
    by (simp add: logged_invoice_def due_invoice_def)
  have b: "r_rule (reminder_3d logged_invoice)
      \<in> set (reminder_log (r_invoice (reminder_3d logged_invoice)))"
    by (simp add: reminder_3d_def logged_invoice_def)
  have c: "send_reminders always_delivers nobody_paused 0 20 [logged_invoice] ()
       = Inr (\<lparr>sent = 1, failed = 0, rate_limited = 0\<rparr>, (),
              [RecordEmailSent (client logged_invoice) (number logged_invoice) ''reminder_1''])"
    unfolding send_reminders_def a
    by (simp add: py_slice_to_def always_delivers_def nobody_paused_def
          sent_call_def reminder_3d_def)
  from a b c show ?thesis by blast
qed

text \<open>
  C4 (as the code has it). With 21 reminders due, nobody paused, and a 20-per-60 limiter
  with an empty queue and budget, \<open>send_reminders\<close> with \<open>batch_size = 20\<close> attempts only
  the first 20 reminders: it returns \<open>sent = 20\<close>, \<open>failed = 0\<close>, \<open>rate_limited = 0\<close>. A
  further batch after the cycle window, the same reminders being due, sends those first 20
  again.
\<close>

theorem send_reminders_batch_stops_at_20:
  assumes "max_per_cycle cfg = 20" and "cycle_seconds cfg = 60"
    and "cycle_queue l = []" and "40 \<le> budget cfg l"
    and "get_due_reminders now unpaid = Inr rs" and "get_due_reminders now' unpaid = Inr rs"
    and "length rs = 21"
    and "\<forall>r\<in>set rs. \<not> is_paused (client (r_invoice r))"
    and "t + 60 < t'"
  shows "send_reminders (limited_sender cfg t) is_paused now 20 unpaid l
           = Inr (\<lparr>sent = 20, failed = 0, rate_limited = 0\<rparr>,
                  snd (run_acquires cfg (replicate 20 t) l), map sent_call (take 20 rs))
       \<and> send_reminders (limited_sender cfg t') is_paused now' 20 unpaid
             (snd (run_acquires cfg (replicate 20 t) l))
           = Inr (\<lparr>sent = 20, failed = 0, rate_limited = 0\<rparr>,
                  snd (run_acquires cfg (replicate 20 t') (snd (run_acquires cfg (replicate 20 t) l))),
                  map sent_call (take 20 rs))"
  using send_reminders_two_batches[OF assms(1-6) _ assms(8,9)] assms(7)
  by simp

theorem send_reminders_batch_stops_at_20_witness:
  "max_per_cycle default_config = 20 \<and> cycle_seconds default_config = 60
   \<and> cycle_queue (new_limiter default_config 0) = []
   \<and> 40 \<le> budget default_config (new_limiter default_config 0)
   \<and> get_due_reminders 0 unpaid21 = Inr (map reminder_3d unpaid21)
   \<and> length (map reminder_3d unpaid21) = 21
   \<and> (0::real) + 60 < 100
   \<and> send_reminders (limited_sender default_config 0) nobody_paused 0 20 unpaid21
        (new_limiter default_config 0)
       = Inr (\<lparr>sent = 20, failed = 0, rate_limited = 0\<rparr>, limiter_after_batch,
              map sent_call (take 20 (map reminder_3d unpaid21)))
   \<and> send_reminders (limited_sender default_config 100) nobody_paused 0 20 unpaid21
        limiter_after_batch
       = Inr (\<lparr>sent = 20, failed = 0, rate_limited = 0\<rparr>,
              snd (run_acquires default_config (replicate 20 100) limiter_after_batch),
              map sent_call (take 20 (map reminder_3d unpaid21)))"
proof -
  have a: "max_per_cycle default_config = 20" and b: "cycle_seconds default_config = 60"
    by (simp_all add: default_config_def)
  have c: "cycle_queue (new_limiter default_config 0) = []"
    and d: "40 \<le> budget default_config (new_limiter default_config 0)"
    by (simp_all add: new_limiter_def budget_def default_config_def)
  have e: "\<forall>r\<in>set (map reminder_3d unpaid21). \<not> nobody_paused (client (r_invoice r))"
    by (simp add: nobody_paused_def)
  have f: "(0::real) + 60 < 100" by simp
  from send_reminders_batch_stops_at_20[OF a b c d unpaid21_due unpaid21_due unpaid21_length e f]
    a b c d e f unpaid21_due unpaid21_length
  show ?thesis unfolding limiter_after_batch_def by blast
qed

text \<open>
  C4 as stated fails: for 21 invoices due in three days and the default limiter the batch
  of size 20 returns \<open>rate_limited = 0\<close>, not 1, and the batch after the window records the
  same 20 reminders, one fewer than are due.
\<close>

theorem send_reminders_21_due_not_rate_limited:
  "send_reminders (limited_sender default_config 0) nobody_paused 0 20 unpaid21
      (new_limiter default_config 0)
     = Inr (\<lparr>sent = 20, failed = 0, rate_limited = 0\<rparr>, limiter_after_batch,
            map sent_call (take 20 (map reminder_3d unpaid21)))
   \<and> rate_limited \<lparr>sent = 20, failed = 0, rate_limited = 0\<rparr> \<noteq> 1
   \<and> send_reminders (limited_sender default_config 100) nobody_paused 0 20 unpaid21
        limiter_after_batch
       = Inr (\<lparr>sent = 20, failed = 0, rate_limited = 0\<rparr>,
              snd (run_acquires default_config (replicate 20 100) limiter_after_batch),
              map sent_call (take 20 (map reminder_3d unpaid21)))
   \<and> length (take 20 (map reminder_3d unpaid21)) < length (map reminder_3d unpaid21)"
proof -
  have a: "max_per_cycle default_config = 20" and b: "cycle_seconds default_config = 60"
    by (simp_all add: default_config_def)
  have c: "cycle_queue (new_limiter default_config 0) = []"
    and d: "40 \<le> budget default_config (new_limiter default_config 0)"
    by (simp_all add: new_limiter_def budget_def default_config_def)
  have e: "\<forall>r\<in>set (map reminder_3d unpaid21). \<not> nobody_paused (client (r_invoice r))"
    by (simp add: nobody_paused_def)
  have f: "(0::real) + 60 < 100" by simp
  have g: "20 < length (map reminder_3d unpaid21)" by (simp add: unpaid21_def)
  from send_reminders_two_batches[OF a b c d unpaid21_due unpaid21_due g e f] g
  show ?thesis unfolding limiter_after_batch_def by simp
qed

subsection \<open>Invoice state store\<close>

lemma state_file_not_archive: "state_file c i \<noteq> archive_file c i"
proof
  assume "state_file c i = archive_file c i"
  then have "length (state_file c i) = length (archive_file c i)" by simp
  then show False by (simp add: state_file_def archive_file_def)
qed

lemma read_state_missing:
  "disk st (state_file c i) = None \<Longrightarrow> read_state digest c i v st = Inr None"
  by (simp add: read_state_def)

lemma read_state_no_checksum:
  assumes "disk st (state_file c i) = Some (Parsed (JObj kvs))"
    and "''_checksum'' \<notin> fst ` set kvs"
  shows "read_state digest c i True st = Inr (Some (JObj kvs))"
proof -
  from assms(2) have "map_of kvs ''_checksum'' = None"
    by (simp add: map_of_eq_None_iff)
  with assms show ?thesis
    by (simp add: read_state_def)
qed

lemma read_state_corrupt_only_with_checksum:
  assumes "disk st (state_file c i) = Some (Parsed (JObj kvs))"
    and "read_state digest c i True st = Inl StateCorruptionError"
  shows "\<exists>stored. map_of kvs ''_checksum'' = Some stored \<and> truthy stored \<and>
           stored \<noteq> JStr (compute_checksum digest (AList.delete ''_checksum'' kvs))"
  using assms
  by (auto simp: read_state_def Let_def split: option.splits if_splits)

lemma read_state_mismatch:
  assumes "disk st (state_file c i) = Some (Parsed (JObj kvs))"
    and "map_of kvs ''_checksum'' = Some stored" and "truthy stored"
    and "stored \<noteq> JStr (compute_checksum digest (AList.delete ''_checksum'' kvs))"
  shows "read_state digest c i True st = recover_or_raise st (state_file c i)"
  using assms by (simp add: read_state_def)

lemma read_state_unparsable:
  "disk st (state_file c i) = Some Unparsable \<Longrightarrow>
     read_state digest c i v st = recover_or_raise st (state_file c i)"
  by (simp add: read_state_def)

lemma read_state_match:
  assumes "disk st (state_file c i) = Some (Parsed (JObj kvs))"
    and "map_of kvs ''_checksum'' = Some (JStr (compute_checksum digest (AList.delete ''_checksum'' kvs)))"
  shows "read_state digest c i True st = Inr (Some (JObj (AList.delete ''_checksum'' kvs)))"
  using assms by (simp add: read_state_def Let_def)

lemma recover_or_raise_cases:
  "recover_or_raise st p =
     (case disk st (backup_file p) of
        Some (Parsed j) \<Rightarrow> if truthy j then Inr (Some j) else Inl StateCorruptionError
      | _ \<Rightarrow> Inl StateCorruptionError)"
  by (simp add: recover_or_raise_def attempt_recovery_def split: option.splits file_content.splits)

lemma mark_paid_success:
  assumes "fst (mark_paid digest t c i p st) = Inr a"
  shows "\<not> enable_locking st \<and> a = archive_file c i \<and>
     (\<exists>kvs. read_state digest c i True st = Inr (Some (JObj kvs)) \<and>
        disk (snd (mark_paid digest t c i p st))
          = (disk (atomic_write (archive_file c i) (JObj (paid_data t p kvs))
                    (atomic_write (state_file c i)
                       (JObj (with_metadata digest t (paid_data t p kvs))) st)))
            (state_file c i := None))"
proof (cases "enable_locking st")
  case True
  have "fst (mark_paid digest t c i p st) \<noteq> Inr a"
    using True
    by (auto simp: mark_paid_def finally_release_def acquire_lock_def release_lock_def
          write_state_def Let_def
          split: sum.splits option.splits json.splits prod.splits bool.splits)
  with assms show ?thesis by simp
next
  case False
  with assms show ?thesis
    by (auto simp: mark_paid_def finally_release_def acquire_lock_def release_lock_def
          write_state_def Let_def atomic_write_def log_event_def
          split: sum.splits option.splits json.splits if_splits)
qed

lemma atomic_write_fields:
  "enable_locking (atomic_write q j st) = enable_locking st"
  "locks (atomic_write q j st) = locks st"
  "event_log (atomic_write q j st) = event_log st"
  by (simp_all add: atomic_write_def)

lemma log_event_fields:
  "enable_locking (log_event t c i e d st) = enable_locking st"
  "locks (log_event t c i e d st) = locks st"
  "disk (log_event t c i e d st) = disk st"
  by (simp_all add: log_event_def)

lemma mark_paid_unlocked:
  assumes "\<not> enable_locking st" and "disk st (state_file c i) \<noteq> None"
    and "read_state digest c i True st = Inr (Some (JObj kvs))"
  shows "fst (mark_paid digest t c i p st) = Inr (archive_file c i)"
  using assms
  by (simp add: mark_paid_def finally_release_def acquire_lock_def release_lock_def
        write_state_def Let_def atomic_write_fields log_event_fields)

lemma read_valid_record:
  "read_state const_digest ''acme'' ''INV-001'' True (store_with valid_record bak)
     = Inr (Some (JObj (AList.delete ''_checksum'' valid_record)))"
proof (rule read_state_match)
  show "disk (store_with valid_record bak) (state_file ''acme'' ''INV-001'')
      = Some (Parsed (JObj valid_record))"
    by (simp add: store_with_def state_file_def)
  show "map_of valid_record ''_checksum''
      = Some (JStr (compute_checksum const_digest (AList.delete ''_checksum'' valid_record)))"
    by (simp add: valid_record_def compute_checksum_def const_digest_def startswith_def)
qed

lemma mark_paid_valid_record:
  "fst (mark_paid const_digest ''2026-02-12T09:00:00'' ''acme'' ''INV-001'' wire_payment
          (store_with valid_record None)) = Inr ''archive/acme/INV-001.json''"
proof -
  have "fst (mark_paid const_digest ''2026-02-12T09:00:00'' ''acme'' ''INV-001'' wire_payment
          (store_with valid_record None)) = Inr (archive_file ''acme'' ''INV-001'')"
  proof (rule mark_paid_unlocked[OF _ _ read_valid_record])
    show "\<not> enable_locking (store_with valid_record None)"
      by (simp add: store_with_def)
    show "disk (store_with valid_record None) (state_file ''acme'' ''INV-001'') \<noteq> None"
      by (simp add: store_with_def state_file_def)
  qed
  then show ?thesis by (simp add: archive_file_def)
qed

text \<open>
  C2 (as the code has it). Once \<open>mark_paid\<close> has completed for a key, the active copy is
  gone and the archive holds the record with status \<open>paid\<close> and the payment; a second
  \<open>mark_paid\<close> for the same key raises \<open>FileNotFoundError\<close> at its first check and leaves
  the store, the archive record included, as it was.
\<close>

theorem mark_paid_second_call_not_found:
  assumes "fst (mark_paid digest t c i p st) = Inr a"
  shows "disk (snd (mark_paid digest t c i p st)) (state_file c i) = None
       \<and> (\<exists>kvs. disk (snd (mark_paid digest t c i p st)) (archive_file c i) = Some (Parsed (JObj kvs))
              \<and> map_of kvs ''status'' = Some (JStr ''paid'')
              \<and> map_of kvs ''payment'' = Some p)
       \<and> mark_paid digest t' c i p' (snd (mark_paid digest t c i p st))
           = (Inl FileNotFoundError, snd (mark_paid digest t c i p st))"
proof -
  from mark_paid_success[OF assms] obtain kvs where
    d: "disk (snd (mark_paid digest t c i p st))
          = (disk (atomic_write (archive_file c i) (JObj (paid_data t p kvs))
                    (atomic_write (state_file c i)
                       (JObj (with_metadata digest t (paid_data t p kvs))) st)))
            (state_file c i := None)"
    by blast
  have gone: "disk (snd (mark_paid digest t c i p st)) (state_file c i) = None"
    by (simp add: d)
  have arch: "disk (snd (mark_paid digest t c i p st)) (archive_file c i)
      = Some (Parsed (JObj (paid_data t p kvs)))"
    using state_file_not_archive[of c i] by (simp add: d atomic_write_def)
  have st: "map_of (paid_data t p kvs) ''status'' = Some (JStr ''paid'')"
    and pay: "map_of (paid_data t p kvs) ''payment'' = Some p"
    by (simp_all add: paid_data_def update_conv')
  from gone have again: "mark_paid digest t' c i p' (snd (mark_paid digest t c i p st))
           = (Inl FileNotFoundError, snd (mark_paid digest t c i p st))"
    by (simp add: mark_paid_def)
  from gone arch st pay again show ?thesis by blast
qed

theorem mark_paid_second_call_not_found_witness:
  "fst (mark_paid const_digest ''2026-02-12T09:00:00'' ''acme'' ''INV-001'' wire_payment
          (store_with valid_record None)) = Inr ''archive/acme/INV-001.json''
   \<and> disk (snd (mark_paid const_digest ''2026-02-12T09:00:00'' ''acme'' ''INV-001'' wire_payment
          (store_with valid_record None))) (state_file ''acme'' ''INV-001'') = None
   \<and> mark_paid const_digest ''2026-02-12T09:30:00'' ''acme'' ''INV-001'' wire_payment
        (snd (mark_paid const_digest ''2026-02-12T09:00:00'' ''acme'' ''INV-001'' wire_payment
          (store_with valid_record None)))
       = (Inl FileNotFoundError,
          snd (mark_paid const_digest ''2026-02-12T09:00:00'' ''acme'' ''INV-001'' wire_payment
                 (store_with valid_record None)))"
  using mark_paid_second_call_not_found[OF mark_paid_valid_record,
          of "''2026-02-12T09:30:00''" wire_payment]
        mark_paid_valid_record
  by blast

text \<open>
  C2 as stated fails: after a first \<open>mark_paid\<close> that returned the archive path, the second
  call with the same key does not yield the archive record, it raises \<open>FileNotFoundError\<close>.
\<close>

theorem mark_paid_twice_raises:
  "fst (mark_paid const_digest ''2026-02-12T09:00:00'' ''acme'' ''INV-001'' wire_payment
          (store_with valid_record None)) = Inr ''archive/acme/INV-001.json''
   \<and> fst (mark_paid const_digest ''2026-02-12T09:30:00'' ''acme'' ''INV-001'' wire_payment
        (snd (mark_paid const_digest ''2026-02-12T09:00:00'' ''acme'' ''INV-001'' wire_payment
          (store_with valid_record None)))) = Inl FileNotFoundError"
proof -
  have "disk (snd (mark_paid const_digest ''2026-02-12T09:00:00'' ''acme'' ''INV-001'' wire_payment
          (store_with valid_record None))) (state_file ''acme'' ''INV-001'') = None"
    using mark_paid_success[OF mark_paid_valid_record] by auto
  then show ?thesis
    using mark_paid_valid_record by (simp add: mark_paid_def)
qed

text \<open>
  C6 (as the code has it). \<open>read_state\<close> with \<open>verify_checksum=True\<close> returns \<open>None\<close> when the
  state file does not exist. When the file does not parse, or its record carries a
  non-empty \<open>_checksum\<close> that differs from the checksum recomputed over the record minus
  its underscore fields, it returns the content of the sibling \<open>.bak\<close> file if that file
  exists, parses and is not an empty value, unverified, and raises \<open>StateCorruptionError\<close>
  in every other case. When the stored checksum equals the recomputed one it returns the
  record without its \<open>_checksum\<close> entry.
\<close>

theorem read_state_verify_outcomes:
  fixes digest :: "(string \<times> json) list \<Rightarrow> string"
  shows "(disk st (state_file c i) = None \<longrightarrow> read_state digest c i True st = Inr None)
       \<and> (disk st (state_file c i) = Some Unparsable \<or>
          (\<exists>kvs stored. disk st (state_file c i) = Some (Parsed (JObj kvs)) \<and>
             map_of kvs ''_checksum'' = Some stored \<and> truthy stored \<and>
             stored \<noteq> JStr (compute_checksum digest (AList.delete ''_checksum'' kvs))) \<longrightarrow>
            read_state digest c i True st =
              (case disk st (backup_file (state_file c i)) of
                 Some (Parsed j) \<Rightarrow> if truthy j then Inr (Some j) else Inl StateCorruptionError
               | _ \<Rightarrow> Inl StateCorruptionError))
       \<and> (\<forall>kvs. disk st (state_file c i) = Some (Parsed (JObj kvs)) \<and>
             map_of kvs ''_checksum''
               = Some (JStr (compute_checksum digest (AList.delete ''_checksum'' kvs))) \<longrightarrow>
            read_state digest c i True st = Inr (Some (JObj (AList.delete ''_checksum'' kvs))))"
proof (intro conjI impI allI)
  assume "disk st (state_file c i) = None"
  then show "read_state digest c i True st = Inr None"
    by (rule read_state_missing)
next
  assume "disk st (state_file c i) = Some Unparsable \<or>
          (\<exists>kvs stored. disk st (state_file c i) = Some (Parsed (JObj kvs)) \<and>
             map_of kvs ''_checksum'' = Some stored \<and> truthy stored \<and>
             stored \<noteq> JStr (compute_checksum digest (AList.delete ''_checksum'' kvs)))"
  then have "read_state digest c i True st = recover_or_raise st (state_file c i)"
    using read_state_unparsable read_state_mismatch by blast
  then show "read_state digest c i True st =
              (case disk st (backup_file (state_file c i)) of
                 Some (Parsed j) \<Rightarrow> if truthy j then Inr (Some j) else Inl StateCorruptionError
               | _ \<Rightarrow> Inl StateCorruptionError)"
    by (simp only: recover_or_raise_cases)
next
  fix kvs
  assume "disk st (state_file c i) = Some (Parsed (JObj kvs)) \<and>
             map_of kvs ''_checksum''
               = Some (JStr (compute_checksum digest (AList.delete ''_checksum'' kvs)))"
  then show "read_state digest c i True st = Inr (Some (JObj (AList.delete ''_checksum'' kvs)))"
    using read_state_match by blast
qed

lemma tampered_mismatch:
  "disk (store_with tampered_record bak) (state_file ''acme'' ''INV-001'')
     = Some (Parsed (JObj tampered_record))
   \<and> map_of tampered_record ''_checksum'' = Some (JStr ''aaaaaaaaaaaaaaaa'')
   \<and> truthy (JStr ''aaaaaaaaaaaaaaaa'')
   \<and> JStr ''aaaaaaaaaaaaaaaa''
        \<noteq> JStr (compute_checksum const_digest (AList.delete ''_checksum'' tampered_record))"
  by (simp add: store_with_def state_file_def tampered_record_def compute_checksum_def
        const_digest_def startswith_def)

lemma tampered_backup:
  "disk (store_with tampered_record bak) (backup_file (state_file ''acme'' ''INV-001'')) = bak"
  by (simp add: store_with_def state_file_def backup_file_def)

theorem read_state_verify_outcomes_witness:
  "read_state const_digest ''acme'' ''INV-001'' True
      (store_with tampered_record (Some (Parsed (JObj valid_record))))
     = Inr (Some (JObj valid_record))
   \<and> read_state const_digest ''acme'' ''INV-001'' True (store_with tampered_record None)
     = Inl StateCorruptionError
   \<and> read_state const_digest ''acme'' ''INV-002'' True (store_with tampered_record None)
     = Inr None
   \<and> read_state const_digest ''acme'' ''INV-001'' True (store_with valid_record None)
     = Inr (Some (JObj (AList.delete ''_checksum'' valid_record)))"
proof -
  have a: "read_state const_digest ''acme'' ''INV-001'' True
      (store_with tampered_record (Some (Parsed (JObj valid_record))))
     = Inr (Some (JObj valid_record))"
    using read_state_verify_outcomes[of "store_with tampered_record (Some (Parsed (JObj valid_record)))"
        "''acme''" "''INV-001''" const_digest]
      tampered_mismatch[of "Some (Parsed (JObj valid_record))"]
      tampered_backup[of "Some (Parsed (JObj valid_record))"]
    by (auto simp: valid_record_def)
  have b: "read_state const_digest ''acme'' ''INV-001'' True (store_with tampered_record None)
     = Inl StateCorruptionError"
    using read_state_verify_outcomes[of "store_with tampered_record None"
        "''acme''" "''INV-001''" const_digest]
      tampered_mismatch[of None] tampered_backup[of None]
    by auto
  have c: "read_state const_digest ''acme'' ''INV-002'' True (store_with tampered_record None)
     = Inr None"
    using read_state_verify_outcomes[of "store_with tampered_record None"
        "''acme''" "''INV-002''" const_digest]
    by (simp add: store_with_def state_file_def)
  have d: "read_state const_digest ''acme'' ''INV-001'' True (store_with valid_record None)
     = Inr (Some (JObj (AList.delete ''_checksum'' valid_record)))"
    by (rule read_valid_record)
  from a b c d show ?thesis by blast
qed

text \<open>
  C6 as stated fails: with a checksum mismatch in the state file and a sibling \<open>.bak\<close> file
  that exists but does not parse, or holds the empty object, \<open>read_state\<close> raises
  \<open>StateCorruptionError\<close> instead of returning the backup.
\<close>

theorem read_state_backup_present_still_raises:
  "read_state const_digest ''acme'' ''INV-001'' True (store_with tampered_record (Some Unparsable))
     = Inl StateCorruptionError
   \<and> disk (store_with tampered_record (Some Unparsable))
        (backup_file (state_file ''acme'' ''INV-001'')) \<noteq> None
   \<and> read_state const_digest ''acme'' ''INV-001'' True
        (store_with tampered_record (Some (Parsed (JObj []))))
     = Inl StateCorruptionError
   \<and> disk (store_with tampered_record (Some (Parsed (JObj []))))
        (backup_file (state_file ''acme'' ''INV-001'')) = Some (Parsed (JObj []))"
  by (simp add: read_state_def store_with_def state_file_def backup_file_def tampered_record_def
        compute_checksum_def const_digest_def startswith_def recover_or_raise_def
        attempt_recovery_def)

text \<open>
  C10. A stored record without a \<open>_checksum\<close> entry is returned by \<open>read_state\<close> with
  \<open>verify_checksum=True\<close> as it is, whatever the digest function; and when \<open>read_state\<close>
  rejects a stored record as corrupt, the record carries a non-empty \<open>_checksum\<close> that
  differs from the recomputed one.
\<close>

theorem read_state_unsigned_record_unverified:
  assumes "disk st (state_file c i) = Some (Parsed (JObj kvs))"
  shows "(''_checksum'' \<notin> fst ` set kvs \<longrightarrow>
            read_state digest c i True st = Inr (Some (JObj kvs)))
       \<and> (read_state digest c i True st = Inl StateCorruptionError \<longrightarrow>
            (\<exists>stored. map_of kvs ''_checksum'' = Some stored \<and> truthy stored \<and>
               stored \<noteq> JStr (compute_checksum digest (AList.delete ''_checksum'' kvs))))"
  using read_state_no_checksum[OF assms] read_state_corrupt_only_with_checksum[OF assms]
  by blast

theorem read_state_unsigned_record_unverified_witness:
  "read_state const_digest ''acme'' ''INV-001'' True (store_with unsigned_record None)
     = Inr (Some (JObj unsigned_record))
   \<and> read_state const_digest ''acme'' ''INV-001'' True (store_with tampered_record None)
     = Inl StateCorruptionError
   \<and> map_of tampered_record ''_checksum'' = Some (JStr ''aaaaaaaaaaaaaaaa'')"
proof -
  have f: "disk (store_with unsigned_record None) (state_file ''acme'' ''INV-001'')
      = Some (Parsed (JObj unsigned_record))"
    by (simp add: store_with_def state_file_def)
  have n: "''_checksum'' \<notin> fst ` set unsigned_record"
    by (simp add: unsigned_record_def)
  have g: "disk (store_with tampered_record None) (state_file ''acme'' ''INV-001'')
      = Some (Parsed (JObj tampered_record))"
    by (simp add: store_with_def state_file_def)
  have r: "read_state const_digest ''acme'' ''INV-001'' True (store_with tampered_record None)
     = Inl StateCorruptionError"
    by (simp add: read_state_def store_with_def state_file_def backup_file_def tampered_record_def
        compute_checksum_def const_digest_def startswith_def recover_or_raise_def
        attempt_recovery_def)
  have m: "map_of tampered_record ''_checksum'' = Some (JStr ''aaaaaaaaaaaaaaaa'')"
    by (simp add: tampered_record_def)
  from read_state_unsigned_record_unverified[OF f, of const_digest] n
       read_state_unsigned_record_unverified[OF g, of const_digest] r m
  show ?thesis by blast
qed

subsection \<open>Ledger\<close>

lemma digit_char_in: "digit_char d \<in> set ''0123456789''"
  by (simp add: digit_char_def Let_def)

lemma str_int_chars: "set (str_int n) \<subseteq> set ''0123456789''"
proof (induction n rule: str_int.induct)
  case (1 n)
  show ?case
  proof (cases "n < 10")
    case True
    then show ?thesis
      using digit_char_in[of n] by (subst str_int.simps) simp
  next
    case False
    with 1 have "set (str_int (n div 10)) \<subseteq> set ''0123456789''" by simp
    with False show ?thesis
      using digit_char_in[of n] by (subst str_int.simps) simp
  qed
qed

lemma group3_chars: "set (group3 xs) \<subseteq> insert CHR '','' (set xs)"
  by (induction xs rule: group3.induct) auto

lemma fmt_2f_chars: "set (fmt_2f g x) \<subseteq> set ''0123456789.,-''"
proof -
  define S where "S = set ''0123456789.,-''"
  have dig: "set ''0123456789'' \<subseteq> S" and comma: "CHR '','' \<in> S"
    and dot: "CHR ''.'' \<in> S" and minus: "CHR ''-'' \<in> S"
    by (simp_all add: S_def)
  let ?c = "round_half_even (\<bar>x\<bar> * 100)"
  have w: "set (str_int (?c div 100)) \<subseteq> S"
    using str_int_chars[of "?c div 100"] dig by (rule subset_trans)
  have "set (rev (group3 (rev (str_int (?c div 100)))))
      \<subseteq> insert CHR '','' (set (str_int (?c div 100)))"
    using group3_chars[of "rev (str_int (?c div 100))"] by simp
  with w comma have g: "set (rev (group3 (rev (str_int (?c div 100))))) \<subseteq> S"
    by blast
  have d1: "digit_char (?c div 10) \<in> S"
    using digit_char_in[of "?c div 10"] dig by blast
  have d2: "digit_char ?c \<in> S"
    using digit_char_in[of ?c] dig by blast
  have "set (fmt_2f g x) \<subseteq> S"
    using w g d1 d2 dot minus by (auto simp: fmt_2f_def Let_def)
  then show ?thesis by (simp only: S_def)
qed

lemma join_lines_Cons: "ys \<noteq> [] \<Longrightarrow> join_lines (l # ys) = l @ newline # join_lines ys"
  by (cases ys) simp_all

lemma join_lines_split: "\<exists>p q. join_lines (a @ x # b) = p @ x @ q"
proof (induction a)
  case Nil
  show ?case
  proof (cases b)
    case Nil
    then have "join_lines ([] @ x # b) = [] @ x @ []" by simp
    then show ?thesis by blast
  next
    case (Cons y ys)
    then have "join_lines ([] @ x # b) = [] @ x @ (newline # join_lines (y # ys))" by simp
    then show ?thesis by blast
  qed
next
  case (Cons l a)
  then obtain p q where pq: "join_lines (a @ x # b) = p @ x @ q" by blast
  have "join_lines ((l # a) @ x # b) = l @ newline # join_lines (a @ x # b)"
    using join_lines_Cons[of "a @ x # b" l] by simp
  also have "\<dots> = (l @ newline # p) @ x @ q" using pq by simp
  finally show ?case by blast
qed

lemma sublist_join_lines: "sublist x (join_lines (a @ x # b))"
  using join_lines_split[of a x b] by (auto simp: sublist_def)

lemma replace_all_skip:
  assumes "old \<noteq> []" and "\<forall>ch\<in>set m. ch \<noteq> hd old"
  shows "replace_all old new (m @ rest) = m @ replace_all old new rest"
  using assms(2)
proof (induction m)
  case Nil
  then show ?case by simp
next
  case (Cons ch m)
  from Cons.prems have "ch \<noteq> hd old" by simp
  with assms(1) have np: "\<not> prefix old (ch # m @ rest)"
    by (cases old) auto
  have "replace_all old new (ch # m @ rest) = ch # replace_all old new (m @ rest)"
    using np assms(1) by (subst replace_all.simps) simp
  with Cons show ?case by simp
qed

lemma replace_all_keeps:
  assumes old: "old \<noteq> []" and b: "b \<notin> set old" and m: "\<forall>ch\<in>set m. ch \<noteq> hd old"
  shows "s = pre @ (b # m @ [b]) @ post \<Longrightarrow> sublist (b # m @ [b]) (replace_all old new s)"
proof (induction "length s" arbitrary: s pre rule: less_induct)
  case less
  note s = less.prems
  show ?case
  proof (cases "prefix old s")
    case True
    then obtain rest where rest: "s = old @ rest" by (auto simp: prefix_def)
    have "length old \<le> length pre"
    proof (rule ccontr)
      assume "\<not> length old \<le> length pre"
      then have lt: "length pre < length old" by simp
      have "old ! length pre = s ! length pre"
        using rest lt by (simp add: nth_append)
      also have "\<dots> = b" using s by (simp add: nth_append)
      finally have "b \<in> set old" using lt nth_mem by metis
      with b show False by simp
    qed
    then have le: "length old \<le> length pre" .
    have "rest = drop (length old) s" using rest by simp
    also have "\<dots> = drop (length old) pre @ (b # m @ [b]) @ post"
      using s le by simp
    finally have r: "rest = drop (length old) pre @ (b # m @ [b]) @ post" .
    have "length rest < length s" using rest old by simp
    from less.hyps[OF this r]
    have "sublist (b # m @ [b]) (replace_all old new rest)" .
    then obtain p q where "replace_all old new rest = p @ (b # m @ [b]) @ q"
      by (auto simp: sublist_def)
    then have "new @ replace_all old new rest = (new @ p) @ (b # m @ [b]) @ q" by simp
    then have "sublist (b # m @ [b]) (new @ replace_all old new rest)"
      unfolding sublist_def by blast
    moreover have "replace_all old new s = new @ replace_all old new rest"
      using True old rest by (subst replace_all.simps) auto
    ultimately show ?thesis by simp
  next
    case False
    show ?thesis
    proof (cases pre)
      case Nil
      have hb: "hd old \<noteq> b" using old b by (cases old) auto
      have "replace_all old new s = b # replace_all old new (m @ b # post)"
        using False old s Nil by (subst replace_all.simps) simp
      also have "\<dots> = b # m @ replace_all old new (b # post)"
        using replace_all_skip[OF old m] by simp
      also have "replace_all old new (b # post) = b # replace_all old new post"
        using old hb by (subst replace_all.simps) (cases old; auto)
      finally have "replace_all old new s = [] @ (b # m @ [b]) @ replace_all old new post" by simp
      then show ?thesis unfolding sublist_def by blast
    next
      case (Cons ch pre')
      then have s': "s = ch # pre' @ (b # m @ [b]) @ post" using s by simp
      have "length (pre' @ (b # m @ [b]) @ post) < length s" using s' by simp
      from less.hyps[OF this refl]
      have "sublist (b # m @ [b]) (replace_all old new (pre' @ (b # m @ [b]) @ post))" .
      then obtain p q where "replace_all old new (pre' @ (b # m @ [b]) @ post) = p @ (b # m @ [b]) @ q"
        by (auto simp: sublist_def)
      then have "ch # replace_all old new (pre' @ (b # m @ [b]) @ post) = (ch # p) @ (b # m @ [b]) @ q"
        by simp
      then have "sublist (b # m @ [b]) (ch # replace_all old new (pre' @ (b # m @ [b]) @ post))"
        unfolding sublist_def by blast
      moreover have "replace_all old new s = ch # replace_all old new (pre' @ (b # m @ [b]) @ post)"
        using False old s' by (subst replace_all.simps) simp
      ultimately show ?thesis by simp
    qed
  qed
qed

lemma replace_all_keeps_sublist:
  assumes "old \<noteq> []" and "b \<notin> set old" and "\<forall>ch\<in>set m. ch \<noteq> hd old"
    and "sublist (b # m @ [b]) s"
  shows "sublist (b # m @ [b]) (replace_all old new s)"
proof -
  from assms(4) obtain pre post where "s = pre @ (b # m @ [b]) @ post"
    by (auto simp: sublist_def)
  then show ?thesis by (rule replace_all_keeps[OF assms(1-3)])
qed

lemma total_label_no_backtick:
  "CHR 0x60 \<notin> set (''**'' @ title sec @ '' Total:** $'' @ fmt_2f g x)"
  "CHR 0x60 \<notin> set (''**Grand Total:** $'' @ fmt_2f g x)"
proof -
  have f: "CHR 0x60 \<notin> set (fmt_2f g x)"
    using fmt_2f_chars[of g x] by auto
  show "CHR 0x60 \<notin> set (''**'' @ title sec @ '' Total:** $'' @ fmt_2f g x)"
    using f by (cases sec) simp_all
  show "CHR 0x60 \<notin> set (''**Grand Total:** $'' @ fmt_2f g x)"
    using f by simp
qed

lemma update_totals_keeps_number:
  assumes "CHR ''*'' \<notin> set num" and "contains (ledger_text lg) (''`'' @ num @ ''`'')"
  shows "contains (ledger_text (update_totals sec amt lg)) (''`'' @ num @ ''`'')"
proof -
  have m: "\<forall>ch\<in>set num. ch \<noteq> hd (''**'' @ title sec @ '' Total:** $'' @ fmt_2f g x)" for g x
    using assms(1) by auto
  have m': "\<forall>ch\<in>set num. ch \<noteq> hd (''**Grand Total:** $'' @ fmt_2f g x)" for g x
    using assms(1) by auto
  have t: "ledger_text (add_to_total sec amt lg) = ledger_text lg"
    by (cases sec) (simp_all add: add_to_total_def)
  have s0: "sublist (CHR 0x60 # num @ [CHR 0x60]) (ledger_text (add_to_total sec amt lg))"
    using assms(2) by (simp add: contains_def t)
  have s1: "sublist (CHR 0x60 # num @ [CHR 0x60])
      (replace_all (''**'' @ title sec @ '' Total:** $'' @ fmt_2f False x) new
         (ledger_text (add_to_total sec amt lg)))" for x new
    by (rule replace_all_keeps_sublist[OF _ total_label_no_backtick(1) m s0]) simp
  have s2: "sublist (CHR 0x60 # num @ [CHR 0x60])
      (replace_all (''**Grand Total:** $'' @ fmt_2f False y) new'
        (replace_all (''**'' @ title sec @ '' Total:** $'' @ fmt_2f False x) new
           (ledger_text (add_to_total sec amt lg))))" for x y new new'
    by (rule replace_all_keeps_sublist[OF _ total_label_no_backtick(2) m' s1]) simp
  show ?thesis
    using s2 by (simp add: update_totals_def Let_def contains_def)
qed

lemma append_to_section_has_entry:
  assumes "append_to_section header entry lg = Inr lg'"
  shows "contains (ledger_text lg') entry"
proof -
  from assms obtain k where
    "ledger_text lg' = join_lines (list_insert k entry (split_lines (ledger_text lg)))"
    by (auto simp: append_to_section_def Let_def split: prod.splits option.splits)
  then show ?thesis
    using sublist_join_lines[of entry "take k (split_lines (ledger_text lg))"
            "drop k (split_lines (ledger_text lg))"]
    by (simp add: contains_def list_insert_def)
qed

lemma unpaid_entry_has_number:
  "sublist (''`'' @ num @ ''`'') (unpaid_entry num amt cl due)"
proof -
  have "unpaid_entry num amt cl due
      = ''- '' @ (''`'' @ num @ ''`'') @
        ('' | $'' @ fmt_2f True amt @ '' | '' @ cl @
         (if due \<noteq> [] then '' | Due: '' @ due else []) @ '' | Status: unpaid'')"
    by (simp add: unpaid_entry_def)
  then show ?thesis unfolding sublist_def by blast
qed

lemma add_invoice_keeps_number:
  assumes "fst (add_invoice d lg) = Inr True" and "d_invoice_number d = Some num"
    and "CHR ''*'' \<notin> set num"
  shows "invoice_exists (snd (add_invoice d lg)) num"
proof -
  from assms(1,2) obtain amt cl lg1 where
    app: "append_to_section ''## Unpaid''
            (unpaid_entry num amt cl (case d_due_date d of None \<Rightarrow> [] | Some v \<Rightarrow> v)) lg = Inr lg1"
    and res: "snd (add_invoice d lg) = update_totals Unpaid amt lg1"
    by (auto simp: add_invoice_def Let_def split: option.splits if_splits sum.splits)
  have "sublist (unpaid_entry num amt cl (case d_due_date d of None \<Rightarrow> [] | Some v \<Rightarrow> v))
          (ledger_text lg1)"
    using append_to_section_has_entry[OF app] by (simp add: contains_def)
  with unpaid_entry_has_number[of num amt cl]
  have "sublist (''`'' @ num @ ''`'') (ledger_text lg1)"
    using sublist_order.order_trans by blast
  then have "contains (ledger_text lg1) (''`'' @ num @ ''`'')"
    by (simp add: contains_def)
  from update_totals_keeps_number[OF assms(3) this]
  show ?thesis by (simp add: invoice_exists_def res)
qed

lemma add_invoice_twice_rejected:
  assumes "fst (add_invoice d lg) = Inr True" and "d_invoice_number d = Some num"
    and "CHR ''*'' \<notin> set num"
  shows "add_invoice d (snd (add_invoice d lg))
           = (Inl (InvoiceAlreadyExists num), snd (add_invoice d lg))"
proof -
  from assms(1,2) obtain amt cl where "d_amount d = Some amt" "d_client_name d = Some cl"
    by (auto simp: add_invoice_def split: option.splits)
  with assms(2) add_invoice_keeps_number[OF assms] show ?thesis
    by (simp add: add_invoice_def Let_def)
qed

text \<open>
  C9. A second \<open>add_invoice\<close> of the same invoice is not always rejected: \<open>_update_totals\<close>
  rewrites the summary with \<open>str.replace\<close> over the whole file, entries included. For an
  invoice whose number is the text \<open>**Unpaid Total:** $0.00\<close>, added to the initial ledger
  with amount 5, the first call succeeds, its own entry is rewritten to \<open>$5.00\<close>, and the
  second call succeeds as well, the unpaid total reaching 10. For the invoice \<open>INV-001\<close> the
  second call is rejected and leaves the ledger as the first call left it (as for every
  invoice number without an asterisk, lemma \<open>add_invoice_twice_rejected\<close>).
\<close>

theorem add_invoice_twice_accepted:
  "fst (add_invoice summary_named_invoice initial_ledger) = Inr True
   \<and> fst (add_invoice summary_named_invoice (snd (add_invoice summary_named_invoice initial_ledger)))
       = Inr True
   \<and> totals_unpaid (snd (add_invoice summary_named_invoice
         (snd (add_invoice summary_named_invoice initial_ledger)))) = 10
   \<and> add_invoice plain_invoice (snd (add_invoice plain_invoice initial_ledger))
       = (Inl (InvoiceAlreadyExists ''INV-001''), snd (add_invoice plain_invoice initial_ledger))"
  by code_simp

end
